theory Spec2Isabelle
  imports Complex_Main "HOL-Library.Sublist"
begin

section \<open>Host-language values\<close>

text \<open>
  The program is TypeScript. A number is a binary64 floating-point value; every finite one
  is a rational, and an arithmetic operation yields the exact result rounded to the nearest
  binary64 value, ties to even. The model takes rationals as the carrier and rounds with
  \<open>fl\<close>: a significand of 53 bits at the exponent of the exact result. The exponent
  is not bounded, so overflow to infinity, the subnormal range below \<open>2 powi (-1022)\<close>,
  not-a-number and the sign of zero are outside the model; none of them is reached by the
  sizes, percentages and page dimensions the program works with.

  A string is a list of UTF-16 code units; the model has the code units below 256 (the
  type \<open>char\<close>), with the complete white-space and letter-case tables of that range.
\<close>

type_synonym number = rat

text \<open>The number of binary digits of a positive integer.\<close>

fun bitlength :: "int \<Rightarrow> nat" where
  "bitlength n = (if n \<le> 0 then 0 else Suc (bitlength (n div 2)))"

declare bitlength.simps [simp del]

text \<open>The exponent \<open>e\<close> of a non-zero \<open>q\<close>: \<open>2 powi e \<le> \<bar>q\<bar> < 2 powi (e + 1)\<close>.\<close>

definition exponent :: "rat \<Rightarrow> int" where
  "exponent q =
     (if 1 \<le> \<bar>q\<bar> then int (bitlength \<lfloor>\<bar>q\<bar>\<rfloor>) - 1
      else - int (bitlength (\<lceil>1 / \<bar>q\<bar>\<rceil> - 1)))"

definition roundTiesToEven :: "rat \<Rightarrow> int" where
  "roundTiesToEven m =
     (let f = \<lfloor>m\<rfloor>; r = m - of_int f
      in if r < 1 / 2 then f else if 1 / 2 < r then f + 1 else if even f then f else f + 1)"

definition fl :: "rat \<Rightarrow> number" where
  "fl q = (if q = 0 then 0
           else of_int (roundTiesToEven (q / 2 powi (exponent q - 52))) * 2 powi (exponent q - 52))"

text \<open>
  The operators \<^verbatim>\<open>+\<close>, \<^verbatim>\<open>-\<close>, \<^verbatim>\<open>*\<close> and \<^verbatim>\<open>/\<close> on numbers. A decimal literal
  such as \<^verbatim>\<open>0.1\<close> denotes \<open>fl (1 / 10)\<close>; \<^verbatim>\<open>Math.min\<close> is exact.
\<close>

definition fadd :: "number \<Rightarrow> number \<Rightarrow> number" where
  "fadd a b = fl (a + b)"

definition fsub :: "number \<Rightarrow> number \<Rightarrow> number" where
  "fsub a b = fl (a - b)"

definition fmul :: "number \<Rightarrow> number \<Rightarrow> number" where
  "fmul a b = fl (a * b)"

definition fdiv :: "number \<Rightarrow> number \<Rightarrow> number" where
  "fdiv a b = fl (a / b)"

text \<open>
  White space as \<^verbatim>\<open>String.prototype.trim\<close> reads it, among the code units below 256:
  tab, line feed, vertical tab, form feed, carriage return, space and the no-break space.
\<close>

definition isWhiteSpace :: "char \<Rightarrow> bool" where
  "isWhiteSpace c =
     (c \<in> set [CHR 0x09, CHR 0x0A, CHR 0x0B, CHR 0x0C, CHR 0x0D, CHR '' '', CHR 0xA0])"

text \<open>\<^verbatim>\<open>String.prototype.trim\<close>: white space is removed at both ends.\<close>

definition trim :: "string \<Rightarrow> string" where
  "trim s = rev (dropWhile isWhiteSpace (rev (dropWhile isWhiteSpace s)))"

text \<open>A string is truthy when it is not empty; \<^verbatim>\<open>!s.trim()\<close> is \<open>blank s\<close>.\<close>

definition blank :: "string \<Rightarrow> bool" where
  "blank s = (trim s = [])"

section \<open>Data model of the single-code generator (App.tsx)\<close>

datatype ecLevel = EcL | EcM | EcQ | EcH

datatype logoShape = Square | Rounded

datatype upload = Upload string

datatype image = Image upload

record QROptions =
  qr_text :: string
  qr_size :: number
  errorCorrectionLevel :: ecLevel
  logoSize :: number
  logoFile :: "upload option"
  logoShape :: logoShape

definition darkColor :: "bool \<Rightarrow> string" where
  "darkColor isDarkMode = (if isDarkMode then ''#ffffff'' else ''#000000'')"

definition lightColor :: "bool \<Rightarrow> string" where
  "lightColor isDarkMode = (if isDarkMode then ''#1f2937'' else ''#ffffff'')"

subsection \<open>The drawing surface\<close>

text \<open>
  The calls the program makes on the 2D context, in the order it makes them. An arc is
  always the full circle (angles \<open>0\<close> to \<open>2\<pi>\<close> in the source). \<open>DrawQR\<close> is the
  encoder's rendering of a payload (\<^verbatim>\<open>QRCode.toCanvas\<close>, margin 2).
\<close>

datatype canvas_op =
    DrawQR string number ecLevel string string
  | SetFillStyle string
  | BeginPath
  | Arc number number number
  | Fill
  | Save
  | Clip
  | Restore
  | FillRect number number number number
  | DrawImage image number number number number

datatype dataUrl = NoUrl | PngOf "canvas_op list"

subsection \<open>Raster path: the \<^verbatim>\<open>img.onload\<close> callback of \<^verbatim>\<open>generateQRCode\<close>\<close>

definition logoSizePixels :: "QROptions \<Rightarrow> number" where
  "logoSizePixels opts = fdiv (fmul (qr_size opts) (logoSize opts)) 100"

definition logo_x :: "QROptions \<Rightarrow> number" where
  "logo_x opts = fdiv (fsub (qr_size opts) (logoSizePixels opts)) 2"

definition logo_y :: "QROptions \<Rightarrow> number" where
  "logo_y opts = fdiv (fsub (qr_size opts) (logoSizePixels opts)) 2"

definition logo_padding :: "QROptions \<Rightarrow> number" where
  "logo_padding opts = fmul (logoSizePixels opts) (fl (1 / 10))"

definition drawLogo :: "QROptions \<Rightarrow> bool \<Rightarrow> image \<Rightarrow> canvas_op list" where
  "drawLogo opts isDarkMode img =
     (let x = logo_x opts; y = logo_y opts; padding = logo_padding opts in
      SetFillStyle (lightColor isDarkMode) #
      (if logoShape opts = Rounded then
         (let radius = fdiv (fadd (logoSizePixels opts) (fmul padding 2)) 2;
              centerX = fadd (fsub x padding) radius;
              centerY = fadd (fsub y padding) radius
          in [BeginPath, Arc centerX centerY radius, Fill,
              Save, BeginPath,
              Arc (fadd x (fdiv (logoSizePixels opts) 2)) (fadd y (fdiv (logoSizePixels opts) 2))
                  (fdiv (logoSizePixels opts) 2),
              Clip,
              DrawImage img x y (logoSizePixels opts) (logoSizePixels opts),
              Restore])
       else [FillRect (fsub x padding) (fsub y padding)
               (fadd (logoSizePixels opts) (fmul padding 2))
               (fadd (logoSizePixels opts) (fmul padding 2)),
             DrawImage img x y (logoSizePixels opts) (logoSizePixels opts)]))"

subsection \<open>Vector path: the \<^verbatim>\<open>svg\<close> case of \<^verbatim>\<open>downloadQRCode\<close>\<close>

definition svg_logoSize :: "QROptions \<Rightarrow> number" where
  "svg_logoSize opts = fdiv (fmul (qr_size opts) (logoSize opts)) 100"

definition svg_x :: "QROptions \<Rightarrow> number" where
  "svg_x opts = fdiv (fsub (qr_size opts) (svg_logoSize opts)) 2"

definition svg_y :: "QROptions \<Rightarrow> number" where
  "svg_y opts = fdiv (fsub (qr_size opts) (svg_logoSize opts)) 2"

definition svg_padding :: "QROptions \<Rightarrow> number" where
  "svg_padding opts = fmul (svg_logoSize opts) (fl (1 / 10))"

text \<open>
  The markup elements the two template literals build. \<open>SvgClippedImage cx cy r x y w h href\<close>
  is the clip-path definition (a circle) followed by the image that refers to it.
\<close>

datatype svg_elem =
    SvgCircle number number number string
  | SvgRect number number number number string
  | SvgClippedImage number number number number number number number string
  | SvgImage number number number number string

definition backgroundRect :: "QROptions \<Rightarrow> bool \<Rightarrow> svg_elem" where
  "backgroundRect opts isDarkMode =
     (if logoShape opts = Rounded
      then SvgCircle (fadd (svg_x opts) (fdiv (svg_logoSize opts) 2))
             (fadd (svg_y opts) (fdiv (svg_logoSize opts) 2))
             (fdiv (fadd (svg_logoSize opts) (fmul (svg_padding opts) 2)) 2)
             (lightColor isDarkMode)
      else SvgRect (fsub (svg_x opts) (svg_padding opts)) (fsub (svg_y opts) (svg_padding opts))
             (fadd (svg_logoSize opts) (fmul (svg_padding opts) 2))
             (fadd (svg_logoSize opts) (fmul (svg_padding opts) 2))
             (lightColor isDarkMode))"

definition logoElement :: "QROptions \<Rightarrow> string \<Rightarrow> svg_elem" where
  "logoElement opts logoDataUrl =
     (if logoShape opts = Rounded
      then SvgClippedImage
             (fadd (svg_x opts) (fdiv (svg_logoSize opts) 2))
             (fadd (svg_y opts) (fdiv (svg_logoSize opts) 2))
             (fdiv (svg_logoSize opts) 2)
             (svg_x opts) (svg_y opts) (svg_logoSize opts) (svg_logoSize opts) logoDataUrl
      else SvgImage (svg_x opts) (svg_y opts) (svg_logoSize opts) (svg_logoSize opts)
             logoDataUrl)"

subsection \<open>What the drawing calls paint\<close>

text \<open>
  A painted layer is a region of the plane with its content; later layers lie above
  earlier ones. The canvas keeps a current path, a clip region, a fill style and a stack
  of saved states; the markup paints its elements in document order.
\<close>

type_synonym point = "number \<times> number"

datatype shape = Disc number number number | Box number number number number
  | Inter shape shape

fun inside :: "shape \<Rightarrow> point \<Rightarrow> bool" where
  "inside (Disc cx cy r) (u, v) = ((u - cx) * (u - cx) + (v - cy) * (v - cy) \<le> r * r)"
| "inside (Box x y w h) (u, v) = (x \<le> u \<and> u \<le> x + w \<and> y \<le> v \<and> v \<le> y + h)"
| "inside (Inter a b) p = (inside a p \<and> inside b p)"

fun interior :: "shape \<Rightarrow> point \<Rightarrow> bool" where
  "interior (Disc cx cy r) (u, v) = ((u - cx) * (u - cx) + (v - cy) * (v - cy) < r * r)"
| "interior (Box x y w h) (u, v) = (x < u \<and> u < x + w \<and> y < v \<and> v < y + h)"
| "interior (Inter a b) p = (interior a p \<and> interior b p)"

datatype content = Colour string | Picture image | Href string

type_synonym layer = "shape \<times> content"

record ctx_state =
  fillStyle :: string
  path :: "shape option"
  clip :: "shape option"
  saved :: "(string \<times> shape option) list"

definition clipped :: "shape option \<Rightarrow> shape \<Rightarrow> shape" where
  "clipped c s = (case c of None \<Rightarrow> s | Some k \<Rightarrow> Inter k s)"

fun canvas_layers :: "ctx_state \<Rightarrow> canvas_op list \<Rightarrow> layer list" where
  "canvas_layers st [] = []"
| "canvas_layers st (SetFillStyle c # ops) = canvas_layers (st\<lparr>fillStyle := c\<rparr>) ops"
| "canvas_layers st (BeginPath # ops) = canvas_layers (st\<lparr>path := None\<rparr>) ops"
| "canvas_layers st (Arc cx cy r # ops) = canvas_layers (st\<lparr>path := Some (Disc cx cy r)\<rparr>) ops"
| "canvas_layers st (Fill # ops) =
     (case path st of
        None \<Rightarrow> canvas_layers st ops
      | Some s \<Rightarrow> (clipped (clip st) s, Colour (fillStyle st)) # canvas_layers st ops)"
| "canvas_layers st (Save # ops) =
     canvas_layers (st\<lparr>saved := (fillStyle st, clip st) # saved st\<rparr>) ops"
| "canvas_layers st (Clip # ops) =
     (case path st of
        None \<Rightarrow> canvas_layers st ops
      | Some s \<Rightarrow> canvas_layers (st\<lparr>clip := Some (clipped (clip st) s)\<rparr>) ops)"
| "canvas_layers st (Restore # ops) =
     (case saved st of
        [] \<Rightarrow> canvas_layers st ops
      | (f, c) # rest \<Rightarrow> canvas_layers (st\<lparr>fillStyle := f, clip := c, saved := rest\<rparr>) ops)"
| "canvas_layers st (FillRect x y w h # ops) =
     (clipped (clip st) (Box x y w h), Colour (fillStyle st)) # canvas_layers st ops"
| "canvas_layers st (DrawImage img x y w h # ops) =
     (clipped (clip st) (Box x y w h), Picture img) # canvas_layers st ops"
| "canvas_layers st (DrawQR t w e d l # ops) = canvas_layers st ops"

definition ctx0 :: ctx_state where
  "ctx0 = \<lparr>fillStyle = ''#000000'', path = None, clip = None, saved = []\<rparr>"

fun svg_layer :: "svg_elem \<Rightarrow> layer" where
  "svg_layer (SvgCircle cx cy r fill) = (Disc cx cy r, Colour fill)"
| "svg_layer (SvgRect x y w h fill) = (Box x y w h, Colour fill)"
| "svg_layer (SvgClippedImage cx cy r x y w h href) = (Inter (Disc cx cy r) (Box x y w h), Href href)"
| "svg_layer (SvgImage x y w h href) = (Box x y w h, Href href)"

subsection \<open>\<^verbatim>\<open>generateQRCode\<close>\<close>

text \<open>
  The collaborators are parameters: the symbol encoder (whether it accepts a payload at a
  level, and the markup it returns), whether the canvas element and its 2D context exist,
  and the decoding of the uploaded logo (\<open>None\<close>: the load never completes, so the
  callback never runs). The state holds what the component keeps between calls, the
  contents of the canvas since it was last resized, and the messages written to the
  console.
\<close>

record encoder =
  accepts :: "string \<Rightarrow> ecLevel \<Rightarrow> bool"
  svgOf :: "string \<Rightarrow> number \<Rightarrow> ecLevel \<Rightarrow> string \<Rightarrow> string \<Rightarrow> string"

record environment =
  canvasMounted :: bool
  qrcode :: encoder
  decode :: "upload \<Rightarrow> image option"

record app_state =
  qrDataUrl :: dataUrl
  qrSvgString :: string
  isGenerating :: bool
  canvas :: "canvas_op list"
  console :: "string list"

definition generateQRCode :: "environment \<Rightarrow> QROptions \<Rightarrow> bool \<Rightarrow> app_state \<Rightarrow> app_state" where
  "generateQRCode env opts isDarkMode st =
     (if blank (qr_text opts) then st
      else if \<not> canvasMounted env then st\<lparr>isGenerating := False\<rparr>
      else if \<not> accepts (qrcode env) (qr_text opts) (errorCorrectionLevel opts)
      then st\<lparr>isGenerating := False, canvas := [],
               console := console st @ [''Error generating QR code:'']\<rparr>
      else
        (let cv = [DrawQR (qr_text opts) (qr_size opts) (errorCorrectionLevel opts)
                     (darkColor isDarkMode) (lightColor isDarkMode)];
             svgString = svgOf (qrcode env) (qr_text opts) (qr_size opts)
                     (errorCorrectionLevel opts) (darkColor isDarkMode) (lightColor isDarkMode)
         in case logoFile opts of
              None \<Rightarrow>
                st\<lparr>qrDataUrl := PngOf cv, qrSvgString := svgString, isGenerating := False,
                   canvas := cv\<rparr>
            | Some f \<Rightarrow>
                (case decode env f of
                   None \<Rightarrow> st\<lparr>qrSvgString := svgString, isGenerating := False, canvas := cv\<rparr>
                 | Some img \<Rightarrow>
                     st\<lparr>qrDataUrl := PngOf (cv @ drawLogo opts isDarkMode img),
                        qrSvgString := svgString, isGenerating := False,
                        canvas := cv @ drawLogo opts isDarkMode img\<rparr>)))"

subsection \<open>Sample requests and environments\<close>

text \<open>A sample request: the defaults of the form, with a logo.\<close>

definition opts0 :: QROptions where
  "opts0 = \<lparr>qr_text = ''https://example.com'', qr_size = 300, errorCorrectionLevel = EcH,
            logoSize = 20, logoFile = Some (Upload ''logo.png''), logoShape = Rounded\<rparr>"

text \<open>
  A sample environment, an initial state, a request whose logo percentage is outside 10 to
  30, a request at size 110 with 16 percent, and a request at size 100 whose percentage is
  \<open>1 / 2 ^ 47\<close> (a logo of side \<open>1 / 2 ^ 47\<close>).
\<close>

definition env0 :: environment where
  "env0 = \<lparr>canvasMounted = True,
            qrcode = \<lparr>accepts = (\<lambda>t e. True), svgOf = (\<lambda>t w e d l. ''<svg></svg>'')\<rparr>,
            decode = (\<lambda>f. Some (Image f))\<rparr>"

definition st0 :: app_state where
  "st0 = \<lparr>qrDataUrl = NoUrl, qrSvgString = [], isGenerating = False, canvas = [], console = []\<rparr>"


definition opts110 :: QROptions where
  "opts110 = \<lparr>qr_text = ''https://example.com'', qr_size = 110, errorCorrectionLevel = EcH,
             logoSize = 16, logoFile = Some (Upload ''logo.png''), logoShape = Rounded\<rparr>"

definition optsTiny :: QROptions where
  "optsTiny = \<lparr>qr_text = ''https://example.com'', qr_size = 100, errorCorrectionLevel = EcH,
              logoSize = 1 / 140737488355328, logoFile = Some (Upload ''logo.png''),
              logoShape = Rounded\<rparr>"

section \<open>Batch generator (the second source file)\<close>

subsection \<open>Strings: decimal numerals, splitting, searching, letter case\<close>

definition digit :: "nat \<Rightarrow> char" where
  "digit d = ''0123456789'' ! d"

text \<open>\<^verbatim>\<open>toString()\<close> of a non-negative integer, and its use in a template literal.\<close>

fun show_nat :: "nat \<Rightarrow> string" where
  "show_nat n = (if n < 10 then [digit n] else show_nat (n div 10) @ [digit (n mod 10)])"

declare show_nat.simps [simp del]

text \<open>\<^verbatim>\<open>s.split(c)\<close> for a one-character separator: never the empty list.\<close>

fun split_on :: "char \<Rightarrow> string \<Rightarrow> string list" where
  "split_on c [] = [[]]"
| "split_on c (x # xs) =
     (if x = c then [] # split_on c xs
      else (case split_on c xs of [] \<Rightarrow> [[x]] | l # ls \<Rightarrow> (x # l) # ls))"

text \<open>\<^verbatim>\<open>s.includes(pat)\<close>: \<open>pat\<close> occurs in \<open>s\<close> at some position.\<close>

fun js_includes :: "string \<Rightarrow> string \<Rightarrow> bool" where
  "js_includes [] pat = (pat = [])"
| "js_includes (c # cs) pat = (prefix pat (c # cs) \<or> js_includes cs pat)"

text \<open>
  \<^verbatim>\<open>toLowerCase\<close> on the code units below 256: the letters A to Z, and the accented
  capitals \<open>0xC0\<close> to \<open>0xDE\<close> (without the multiplication sign \<open>0xD7\<close>), each \<open>0x20\<close>
  below its small letter.
\<close>

definition upperLetters :: string where
  "upperLetters =
     ''ABCDEFGHIJKLMNOPQRSTUVWXYZ''
     @ [CHR 0xC0, CHR 0xC1, CHR 0xC2, CHR 0xC3, CHR 0xC4, CHR 0xC5, CHR 0xC6, CHR 0xC7,
        CHR 0xC8, CHR 0xC9, CHR 0xCA, CHR 0xCB, CHR 0xCC, CHR 0xCD, CHR 0xCE, CHR 0xCF,
        CHR 0xD0, CHR 0xD1, CHR 0xD2, CHR 0xD3, CHR 0xD4, CHR 0xD5, CHR 0xD6,
        CHR 0xD8, CHR 0xD9, CHR 0xDA, CHR 0xDB, CHR 0xDC, CHR 0xDD, CHR 0xDE]"

definition lowerLetters :: string where
  "lowerLetters =
     ''abcdefghijklmnopqrstuvwxyz''
     @ [CHR 0xE0, CHR 0xE1, CHR 0xE2, CHR 0xE3, CHR 0xE4, CHR 0xE5, CHR 0xE6, CHR 0xE7,
        CHR 0xE8, CHR 0xE9, CHR 0xEA, CHR 0xEB, CHR 0xEC, CHR 0xED, CHR 0xEE, CHR 0xEF,
        CHR 0xF0, CHR 0xF1, CHR 0xF2, CHR 0xF3, CHR 0xF4, CHR 0xF5, CHR 0xF6,
        CHR 0xF8, CHR 0xF9, CHR 0xFA, CHR 0xFB, CHR 0xFC, CHR 0xFD, CHR 0xFE]"

definition toLowerChar :: "char \<Rightarrow> char" where
  "toLowerChar c =
     (case map_of (zip upperLetters lowerLetters) c of Some d \<Rightarrow> d | None \<Rightarrow> c)"

definition toLowerCase :: "string \<Rightarrow> string" where
  "toLowerCase s = map toLowerChar s"

text \<open>\<^verbatim>\<open>s.replace(/"/g, '')\<close>: every double quote is removed.\<close>

definition stripQuotes :: "string \<Rightarrow> string" where
  "stripQuotes s = filter (\<lambda>c. c \<noteq> CHR 0x22) s"

subsection \<open>The collection and its editing operations\<close>

text \<open>
  \<open>item_id\<close>, \<open>item_text\<close> and \<open>filename\<close> are the fields \<^verbatim>\<open>id\<close>, \<^verbatim>\<open>text\<close> and the
  optional \<^verbatim>\<open>filename\<close> of \<^verbatim>\<open>BatchItem\<close>. The clock (\<^verbatim>\<open>Date.now()\<close>, in
  milliseconds) is the parameter \<open>now\<close> of the operations that read it; an operation
  is taken to read one value throughout.
\<close>

record BatchItem =
  item_id :: string
  item_text :: string
  filename :: "string option"

datatype BatchItemKey = KeyId | KeyText | KeyFilename

definition initialItems :: "BatchItem list" where
  "initialItems =
     [\<lparr>item_id = ''1'', item_text = ''https://example.com'', filename = Some ''example-website''\<rparr>,
      \<lparr>item_id = ''2'', item_text = ''mailto:contact@company.com'', filename = Some ''contact-email''\<rparr>,
      \<lparr>item_id = ''3'', item_text = ''tel:+1234567890'', filename = Some ''phone-number''\<rparr>]"

definition addBatchItem :: "nat \<Rightarrow> BatchItem list \<Rightarrow> BatchItem list" where
  "addBatchItem now batchItems =
     batchItems @
       [\<lparr>item_id = show_nat now, item_text = [],
         filename = Some (''qr-code-'' @ show_nat (length batchItems + 1))\<rparr>]"

definition setField :: "BatchItemKey \<Rightarrow> string \<Rightarrow> BatchItem \<Rightarrow> BatchItem" where
  "setField field v item =
     (case field of
        KeyId \<Rightarrow> item\<lparr>item_id := v\<rparr>
      | KeyText \<Rightarrow> item\<lparr>item_text := v\<rparr>
      | KeyFilename \<Rightarrow> item\<lparr>filename := Some v\<rparr>)"

definition updateBatchItem :: "string \<Rightarrow> BatchItemKey \<Rightarrow> string \<Rightarrow> BatchItem list \<Rightarrow> BatchItem list" where
  "updateBatchItem i field v items =
     map (\<lambda>item. if item_id item = i then setField field v item else item) items"

definition removeBatchItem :: "string \<Rightarrow> BatchItem list \<Rightarrow> BatchItem list" where
  "removeBatchItem i items = filter (\<lambda>item. item_id item \<noteq> i) items"

subsection \<open>\<^verbatim>\<open>handleCSVUpload\<close>\<close>

datatype error = TypeError

text \<open>The lines of the file that are not blank.\<close>

definition csvLines :: "string \<Rightarrow> string list" where
  "csvLines csv = filter (\<lambda>line. \<not> blank line) (split_on CHR 0x0A csv)"

text \<open>The header test and the choice of the data lines; \<open>lines\<close> is not empty here.\<close>

definition isHeader :: "string \<Rightarrow> bool" where
  "isHeader line = (js_includes (toLowerCase line) ''text'' \<or> js_includes (toLowerCase line) ''url'')"

definition dataLines :: "string list \<Rightarrow> string list" where
  "dataLines lines = (if isHeader (hd lines) then tl lines else lines)"

text \<open>
  One line becomes one item: the fields are the comma-separated parts, trimmed and with
  their quotes removed; the first is the payload, the second (when present and not empty)
  the file name.
\<close>

definition lineFields :: "string \<Rightarrow> string list" where
  "lineFields line = map (\<lambda>s. stripQuotes (trim s)) (split_on CHR '','' line)"

definition lineItem :: "nat \<Rightarrow> nat \<Rightarrow> string \<Rightarrow> BatchItem" where
  "lineItem now index line =
     (let fields = lineFields line;
          t = hd fields;
          fn = (case tl fields of [] \<Rightarrow> [] | f # _ \<Rightarrow> f)
      in \<lparr>item_id = show_nat (now + index), item_text = t,
          filename = Some (if fn = [] then ''qr-code-'' @ show_nat (index + 1) else fn)\<rparr>)"

definition newItems :: "nat \<Rightarrow> string list \<Rightarrow> BatchItem list" where
  "newItems now ls =
     filter (\<lambda>item. item_text item \<noteq> [])
       (map (\<lambda>(index, line). lineItem now index line) (zip [0..<length ls] ls))"

text \<open>
  \<open>file\<close> is the text of the chosen file (\<open>None\<close>: no file was chosen). With no line that
  is not blank, \<^verbatim>\<open>lines[0]\<close> is undefined and the callback throws before it sets the
  collection.
\<close>

definition handleCSVUpload :: "nat \<Rightarrow> string option \<Rightarrow> BatchItem list \<Rightarrow> error + BatchItem list" where
  "handleCSVUpload now file batchItems =
     (case file of
        None \<Rightarrow> Inr batchItems
      | Some csv \<Rightarrow>
          (if csvLines csv = [] then Inl TypeError
           else Inr (newItems now (dataLines (csvLines csv)))))"

subsection \<open>The document library and the batch export\<close>

text \<open>
  The calls the program makes on a document, recorded page by page: a document is its
  finished pages and the page being drawn (a new document has one empty page; \<^verbatim>\<open>addPage\<close>
  finishes the current page and opens the next). All text is drawn centred. The page size,
  the wrapping of text to a width and the encoder are parameters.
\<close>

datatype pdf_op =
    SetFontSize nat
  | SetTextColor nat nat nat
  | PdfText string number number
  | PdfTextLines "string list" number number
  | AddImage dataUrl number number number number

type_synonym pdf = "pdf_op list list \<times> pdf_op list"

definition newPdf :: pdf where
  "newPdf = ([], [])"

definition addPage :: "pdf \<Rightarrow> pdf" where
  "addPage d = (fst d @ [snd d], [])"

definition draw :: "pdf_op list \<Rightarrow> pdf \<Rightarrow> pdf" where
  "draw ops d = (fst d, snd d @ ops)"

definition pages :: "pdf \<Rightarrow> pdf_op list list" where
  "pages d = fst d @ [snd d]"

datatype artifact = PngFile string dataUrl | PdfFile string "pdf_op list list"

datatype BatchExportFormat = PngZip | PdfPages | PdfGrid

record batch_env =
  encoder :: encoder
  pdfWidth :: number
  pdfHeight :: number
  splitTextToSize :: "string \<Rightarrow> number \<Rightarrow> string list"

definition qrSize :: number where
  "qrSize = 200"

text \<open>
  \<^verbatim>\<open>generateQRCodeDataURL\<close>: the image of a fresh canvas on which the encoder has drawn
  the payload; \<open>None\<close> when the encoder rejects (the promise is rejected).
\<close>

definition qrPng :: "bool \<Rightarrow> string \<Rightarrow> dataUrl" where
  "qrPng isDarkMode t = PngOf [DrawQR t qrSize EcH (darkColor isDarkMode) (lightColor isDarkMode)]"

definition generateQRCodeDataURL :: "batch_env \<Rightarrow> bool \<Rightarrow> string \<Rightarrow> dataUrl option" where
  "generateQRCodeDataURL env isDarkMode t =
     (if accepts (encoder env) t EcH then Some (qrPng isDarkMode t) else None)"

text \<open>\<^verbatim>\<open>item.filename || d\<close>: the default when the name is absent or empty.\<close>

definition filenameOr :: "BatchItem \<Rightarrow> string \<Rightarrow> string" where
  "filenameOr item d = (case filename item of None \<Rightarrow> d | Some f \<Rightarrow> if f = [] then d else f)"

text \<open>
  The \<^verbatim>\<open>png-zip\<close> loop: one download per item; a rejected payload stops the loop, and
  the downloads already triggered stay. The result is the downloads and whether it failed.
\<close>

fun pngLoop :: "batch_env \<Rightarrow> bool \<Rightarrow> BatchItem list \<Rightarrow> artifact list \<times> bool" where
  "pngLoop env isDarkMode [] = ([], False)"
| "pngLoop env isDarkMode (item # rest) =
     (case generateQRCodeDataURL env isDarkMode (item_text item) of
        None \<Rightarrow> ([], True)
      | Some dataUrl \<Rightarrow>
          (let r = pngLoop env isDarkMode rest
           in (PngFile (filenameOr item ''qr-code'' @ ''.png'') dataUrl # fst r, snd r)))"

text \<open>The \<^verbatim>\<open>pdf-pages\<close> loop, from index \<open>i\<close>; \<open>None\<close> when a payload is rejected.\<close>

definition pageOps :: "batch_env \<Rightarrow> nat \<Rightarrow> BatchItem \<Rightarrow> dataUrl \<Rightarrow> pdf_op list" where
  "pageOps env i item dataUrl =
     (let qrSizeMM = min (fmul (pdfWidth env) (fl (6 / 10))) (fmul (pdfHeight env) (fl (6 / 10)));
          xPos = fdiv (fsub (pdfWidth env) qrSizeMM) 2;
          yPos = fdiv (fsub (pdfHeight env) qrSizeMM) 2;
          maxWidth = fsub (pdfWidth env) 40
      in [SetFontSize 16, SetTextColor 0 0 0,
          PdfText (filenameOr item (''QR Code '' @ show_nat (i + 1))) (fdiv (pdfWidth env) 2) 30,
          AddImage dataUrl xPos yPos qrSizeMM qrSizeMM,
          SetFontSize 10, SetTextColor 100 100 100,
          PdfTextLines (splitTextToSize env (item_text item) maxWidth) (fdiv (pdfWidth env) 2)
            (fadd (fadd yPos qrSizeMM) 20)])"

fun pagesLoop :: "batch_env \<Rightarrow> bool \<Rightarrow> nat \<Rightarrow> pdf \<Rightarrow> BatchItem list \<Rightarrow> pdf option" where
  "pagesLoop env isDarkMode i d [] = Some d"
| "pagesLoop env isDarkMode i d (item # rest) =
     (let d1 = (if 0 < i then addPage d else d)
      in case generateQRCodeDataURL env isDarkMode (item_text item) of
           None \<Rightarrow> None
         | Some dataUrl \<Rightarrow> pagesLoop env isDarkMode (i + 1) (draw (pageOps env i item dataUrl) d1) rest)"

text \<open>The \<^verbatim>\<open>pdf-grid\<close> case: its constants, the placement of index \<open>i\<close>, and the loop.\<close>

definition margin :: number where "margin = 20"
definition cols :: nat where "cols = 2"
definition rows :: nat where "rows = 3"

definition cellWidth :: "batch_env \<Rightarrow> number" where
  "cellWidth env = fdiv (fsub (pdfWidth env) (fmul margin 2)) (of_nat cols)"

definition cellHeight :: "batch_env \<Rightarrow> number" where
  "cellHeight env = fdiv (fsub (pdfHeight env) (fmul margin 2)) (of_nat rows)"

definition qrSizeMM :: "batch_env \<Rightarrow> number" where
  "qrSizeMM env = min (fmul (cellWidth env) (fl (7 / 10))) (fmul (cellHeight env) (fl (5 / 10)))"

definition pageIndex :: "nat \<Rightarrow> nat" where
  "pageIndex i = i div (cols * rows)"

definition cellIndex :: "nat \<Rightarrow> nat" where
  "cellIndex i = i mod (cols * rows)"

definition col :: "nat \<Rightarrow> nat" where
  "col i = cellIndex i mod cols"

definition row :: "nat \<Rightarrow> nat" where
  "row i = cellIndex i div cols"

definition truncatedText :: "string \<Rightarrow> string" where
  "truncatedText t = (if length t > 30 then take 30 t @ ''...'' else t)"

definition cellOps :: "batch_env \<Rightarrow> nat \<Rightarrow> BatchItem \<Rightarrow> dataUrl \<Rightarrow> pdf_op list" where
  "cellOps env i item dataUrl =
     (let x = fadd margin (fmul (of_nat (col i)) (cellWidth env));
          y = fadd margin (fmul (of_nat (row i)) (cellHeight env));
          qrX = fadd x (fdiv (fsub (cellWidth env) (qrSizeMM env)) 2);
          qrY = fadd y 10
      in [AddImage dataUrl qrX qrY (qrSizeMM env) (qrSizeMM env),
          SetFontSize 8, SetTextColor 0 0 0,
          PdfText (filenameOr item (''QR '' @ show_nat (i + 1))) (fadd x (fdiv (cellWidth env) 2))
            (fadd (fadd qrY (qrSizeMM env)) 8),
          SetFontSize 6, SetTextColor 100 100 100,
          PdfText (truncatedText (item_text item)) (fadd x (fdiv (cellWidth env) 2))
            (fadd (fadd qrY (qrSizeMM env)) 15)])"

text \<open>The loop state is the index \<open>i\<close>, \<^verbatim>\<open>currentPage\<close> and the document.\<close>

fun gridLoop :: "batch_env \<Rightarrow> bool \<Rightarrow> nat \<Rightarrow> nat \<Rightarrow> pdf \<Rightarrow> BatchItem list \<Rightarrow> (nat \<times> pdf) option" where
  "gridLoop env isDarkMode i currentPage d [] = Some (currentPage, d)"
| "gridLoop env isDarkMode i currentPage d (item # rest) =
     (let turn = (pageIndex i > currentPage);
          d1 = (if turn then addPage d else d);
          currentPage1 = (if turn then pageIndex i else currentPage)
      in case generateQRCodeDataURL env isDarkMode (item_text item) of
           None \<Rightarrow> None
         | Some dataUrl \<Rightarrow>
             gridLoop env isDarkMode (i + 1) currentPage1 (draw (cellOps env i item dataUrl) d1) rest)"

text \<open>
  \<^verbatim>\<open>downloadBatch\<close>: the files saved and the messages written to the console. A failure in
  a document mode saves nothing; in the \<^verbatim>\<open>png-zip\<close> mode the earlier downloads stay.
\<close>

definition downloadBatch ::
  "batch_env \<Rightarrow> bool \<Rightarrow> nat \<Rightarrow> BatchExportFormat \<Rightarrow> BatchItem list \<Rightarrow> artifact list \<times> string list" where
  "downloadBatch env isDarkMode now selectedFormat batchItems =
     (if batchItems = [] \<or> list_all (\<lambda>item. blank (item_text item)) batchItems then ([], [])
      else
        (let validItems = filter (\<lambda>item. \<not> blank (item_text item)) batchItems;
             failed = [''Error generating batch QR codes:'']
         in case selectedFormat of
              PngZip \<Rightarrow>
                (let r = pngLoop env isDarkMode validItems
                 in (fst r, if snd r then failed else []))
            | PdfPages \<Rightarrow>
                (case pagesLoop env isDarkMode 0 newPdf validItems of
                   None \<Rightarrow> ([], failed)
                 | Some d \<Rightarrow>
                     ([PdfFile (''qrbrandr-batch-'' @ show_nat now @ ''.pdf'') (pages d)], []))
            | PdfGrid \<Rightarrow>
                (case gridLoop env isDarkMode 0 0 newPdf validItems of
                   None \<Rightarrow> ([], failed)
                 | Some (currentPage, d) \<Rightarrow>
                     ([PdfFile (''qrbrandr-grid-'' @ show_nat now @ ''.pdf'') (pages d)], []))))"

text \<open>
  The cells a grid page is expected to hold: page \<open>k\<close> of a document of \<open>n\<close> cells holds
  the cells of the indices \<open>6 * k\<close>, ..., up to six of them, in order.
\<close>

definition gridPage :: "(nat \<Rightarrow> pdf_op list) \<Rightarrow> nat \<Rightarrow> nat \<Rightarrow> pdf_op list" where
  "gridPage cell n k = concat (map cell [6 * k ..< min n (6 * k + 6)])"

definition gridCell :: "batch_env \<Rightarrow> bool \<Rightarrow> BatchItem list \<Rightarrow> nat \<Rightarrow> pdf_op list" where
  "gridCell env isDarkMode items j =
     cellOps env j (items ! j) (qrPng isDarkMode (item_text (items ! j)))"

text \<open>
  A sample batch environment (an encoder that accepts everything, an A4 page of 210 by 297
  millimetres, text wrapping that never breaks) and a collection of thirteen valid items.
\<close>

definition benv0 :: batch_env where
  "benv0 = \<lparr>encoder = \<lparr>accepts = (\<lambda>t e. True), svgOf = (\<lambda>t w e d l. ''<svg></svg>'')\<rparr>,
             pdfWidth = 210, pdfHeight = 297, splitTextToSize = (\<lambda>t w. [t])\<rparr>"

definition items13 :: "BatchItem list" where
  "items13 = map (\<lambda>k. \<lparr>item_id = show_nat k, item_text = ''tel:+'' @ show_nat k, filename = None\<rparr>)
               [0..<13]"

subsection \<open>String replacement and the markup of the vector path\<close>

text \<open>
  \<^verbatim>\<open>s.indexOf(pat)\<close>: the first position at which \<open>pat\<close> occurs in \<open>s\<close>.
\<close>

fun indexOf :: "string \<Rightarrow> string \<Rightarrow> nat option" where
  "indexOf [] pat = (if pat = [] then Some 0 else None)"
| "indexOf (c # cs) pat =
     (if prefix pat (c # cs) then Some 0 else map_option Suc (indexOf cs pat))"

text \<open>
  The expansion of the replacement text for a string pattern (no capture groups):
  \<^verbatim>\<open>$$\<close> is a dollar sign, \<^verbatim>\<open>$&\<close> the matched text, \<^verbatim>\<open>$`\<close> the text before the
  match and \<^verbatim>\<open>$'\<close> the text after it; every other character stands for itself.
\<close>

fun getSubstitution :: "string \<Rightarrow> string \<Rightarrow> string \<Rightarrow> string \<Rightarrow> string" where
  "getSubstitution matched before after [] = []"
| "getSubstitution matched before after [c] = [c]"
| "getSubstitution matched before after (c # c2 # cs) =
     (if c = CHR ''$'' then
        (if c2 = CHR ''$'' then CHR ''$'' # getSubstitution matched before after cs
         else if c2 = CHR ''&'' then matched @ getSubstitution matched before after cs
         else if c2 = CHR 0x60 then before @ getSubstitution matched before after cs
         else if c2 = CHR 0x27 then after @ getSubstitution matched before after cs
         else c # getSubstitution matched before after (c2 # cs))
      else c # getSubstitution matched before after (c2 # cs))"

text \<open>\<^verbatim>\<open>s.replace(pat, r)\<close> with a string pattern: the first occurrence only.\<close>

definition js_replace :: "string \<Rightarrow> string \<Rightarrow> string \<Rightarrow> string" where
  "js_replace s pat r =
     (case indexOf s pat of
        None \<Rightarrow> s
      | Some i \<Rightarrow>
          take i s
          @ getSubstitution pat (take i s) (drop (i + length pat) s) r
          @ drop (i + length pat) s)"

text \<open>
  The text of the two template literals. \<open>fmt\<close> is the conversion of a number to text
  (left as a parameter); \<open>attr\<close> writes \<^verbatim>\<open> name="value"\<close>.
\<close>

definition attr :: "string \<Rightarrow> string \<Rightarrow> string" where
  "attr name v = '' '' @ name @ ''='' @ [CHR 0x22] @ v @ [CHR 0x22]"

fun renderElem :: "(number \<Rightarrow> string) \<Rightarrow> svg_elem \<Rightarrow> string" where
  "renderElem fmt (SvgCircle cx cy r fill) =
     ''<circle'' @ attr ''cx'' (fmt cx) @ attr ''cy'' (fmt cy) @ attr ''r'' (fmt r)
       @ attr ''fill'' fill @ ''/>''"
| "renderElem fmt (SvgRect x y w h fill) =
     ''<rect'' @ attr ''x'' (fmt x) @ attr ''y'' (fmt y) @ attr ''width'' (fmt w)
       @ attr ''height'' (fmt h) @ attr ''fill'' fill @ ''/>''"
| "renderElem fmt (SvgClippedImage cx cy r x y w h href) =
     ''<defs><clipPath'' @ attr ''id'' ''logoClip'' @ ''><circle'' @ attr ''cx'' (fmt cx)
       @ attr ''cy'' (fmt cy) @ attr ''r'' (fmt r) @ ''/></clipPath></defs><image''
       @ attr ''x'' (fmt x) @ attr ''y'' (fmt y) @ attr ''width'' (fmt w)
       @ attr ''height'' (fmt h) @ attr ''href'' href @ attr ''clip-path'' ''url(#logoClip)''
       @ ''/>''"
| "renderElem fmt (SvgImage x y w h href) =
     ''<image'' @ attr ''x'' (fmt x) @ attr ''y'' (fmt y) @ attr ''width'' (fmt w)
       @ attr ''height'' (fmt h) @ attr ''href'' href @ ''/>''"

subsection \<open>\<^verbatim>\<open>downloadQRCode\<close>\<close>

datatype ExportFormat = Png | Svg | Pdf

datatype download =
    PngDownload string dataUrl
  | SvgDownload string string
  | PdfDownload string "pdf_op list"

text \<open>
  The parameters beyond the request and the state: the number formatting, the encoded logo
  (\<open>logoUrl f\<close> is the data address of the decoded and re-drawn logo, \<open>None\<close> when the
  load never completes), the clock, the page size and the date text of the footer. The
  result is the file handed to the browser, if any.
\<close>

record download_env =
  fmt :: "number \<Rightarrow> string"
  logoUrl :: "upload \<Rightarrow> string option"
  pageWidth :: number
  pageHeight :: number
  today :: string

definition baseFilename :: "nat \<Rightarrow> string" where
  "baseFilename timestamp = ''qrbrandr-qr-code-'' @ show_nat timestamp"

definition downloadQRCode ::
  "download_env \<Rightarrow> QROptions \<Rightarrow> bool \<Rightarrow> nat \<Rightarrow> ExportFormat \<Rightarrow> app_state \<Rightarrow> download option" where
  "downloadQRCode env opts isDarkMode timestamp selectedFormat st =
     (if qrDataUrl st = NoUrl \<and> selectedFormat = Png then None
      else if qrSvgString st = [] \<and> selectedFormat = Svg then None
      else case selectedFormat of
        Png \<Rightarrow> Some (PngDownload (baseFilename timestamp @ ''.png'') (qrDataUrl st))
      | Svg \<Rightarrow>
          (case logoFile opts of
             None \<Rightarrow> Some (SvgDownload (baseFilename timestamp @ ''.svg'') (qrSvgString st))
           | Some f \<Rightarrow>
               (case logoUrl env f of
                  None \<Rightarrow> None
                | Some logoDataUrl \<Rightarrow>
                    Some (SvgDownload (baseFilename timestamp @ ''.svg'')
                      (js_replace (qrSvgString st) ''</svg>''
                         (renderElem (fmt env) (backgroundRect opts isDarkMode)
                          @ renderElem (fmt env) (logoElement opts logoDataUrl)
                          @ ''</svg>'')))))
      | Pdf \<Rightarrow>
          (let qrSizeMM = min (fmul (pageWidth env) (fl (6 / 10)))
                               (fmul (pageHeight env) (fl (6 / 10)));
               xPos = fdiv (fsub (pageWidth env) qrSizeMM) 2;
               yPos = fdiv (fsub (pageHeight env) qrSizeMM) 2
           in Some (PdfDownload (baseFilename timestamp @ ''.pdf'')
                ([SetFontSize 20, SetTextColor 0 0 0, PdfText ''QR Code'' (fdiv (pageWidth env) 2) 30]
                 @ (if qrDataUrl st = NoUrl then []
                    else [AddImage (qrDataUrl st) xPos yPos qrSizeMM qrSizeMM])
                 @ [SetFontSize 10, SetTextColor 100 100 100,
                    PdfText (''Generated by QRBrandr on '' @ today env) (fdiv (pageWidth env) 2)
                      (fsub (pageHeight env) 20),
                    PdfText (''Content: '' @ take 50 (qr_text opts)
                             @ (if length (qr_text opts) > 50 then ''...'' else []))
                      (fdiv (pageWidth env) 2) (fsub (pageHeight env) 15)]))))"

text \<open>A sample download environment and a state holding a generated vector document.\<close>

definition denv0 :: download_env where
  "denv0 = \<lparr>fmt = (\<lambda>q. if q = 120 then ''120'' else if q = 150 then ''150''
                        else if q = 60 then ''60'' else if q = 30 then ''30''
                        else if q = 36 then ''36'' else ''0''),
             logoUrl = (\<lambda>f. Some ''data:image/png;base64,AAAA''),
             pageWidth = 210, pageHeight = 297, today = ''1/1/2026''\<rparr>"

definition stSvg :: app_state where
  "stSvg = \<lparr>qrDataUrl = NoUrl, qrSvgString = ''<svg><path/></svg>'', isGenerating = False,
            canvas = [], console = []\<rparr>"

subsection \<open>The encoded images an export contains\<close>

text \<open>
  The images of encoded payloads found in a saved file, in order: the image of a raster
  download, and the images drawn on the pages of a document.
\<close>

fun opImages :: "pdf_op \<Rightarrow> dataUrl list" where
  "opImages (AddImage u x y w h) = [u]"
| "opImages (SetFontSize s) = []"
| "opImages (SetTextColor r g b) = []"
| "opImages (PdfText t x y) = []"
| "opImages (PdfTextLines ts x y) = []"

fun artifactImages :: "artifact \<Rightarrow> dataUrl list" where
  "artifactImages (PngFile name u) = [u]"
| "artifactImages (PdfFile name pgs) = concat (map opImages (concat pgs))"

definition docImages :: "pdf \<Rightarrow> dataUrl list" where
  "docImages doc = concat (map opImages (concat (pages doc)))"

text \<open>
  A sample collection with one valid item, one of white space only (a space, a no-break
  space and a tab) and one empty; and a request whose payload is a no-break space and a
  space.
\<close>

definition itemsBlank :: "BatchItem list" where
  "itemsBlank =
     [\<lparr>item_id = ''1'', item_text = ''tel:+1'', filename = Some ''phone''\<rparr>,
      \<lparr>item_id = ''2'', item_text = [CHR '' '', CHR 0xA0, CHR 0x09], filename = Some ''spaces''\<rparr>,
      \<lparr>item_id = ''3'', item_text = [], filename = None\<rparr>]"

definition optsBlank :: QROptions where
  "optsBlank = \<lparr>qr_text = [CHR 0xA0, CHR '' ''], qr_size = 300, errorCorrectionLevel = EcH,
               logoSize = 20, logoFile = None, logoShape = Rounded\<rparr>"

section \<open>Rounding\<close>

text \<open>
  The exponent brackets the magnitude, so the significand of \<open>fl q\<close> has 53 bits, and
  rounding moves a value by at most half a unit in the last place: a relative error of at
  most \<open>2 powi (-53)\<close>.
\<close>

lemma bitlength_bounds:
  "0 < n \<Longrightarrow> 2 ^ (bitlength n - 1) \<le> n \<and> n < 2 ^ bitlength n"
proof (induction n rule: bitlength.induct)
  case (1 n)
  show ?case
  proof (cases "n div 2 \<le> 0")
    case True
    then have "n = 1" using "1.prems" by linarith
    then show ?thesis by (simp add: bitlength.simps)
  next
    case False
    then have pos: "0 < n div 2" by simp
    have ih: "2 ^ (bitlength (n div 2) - 1) \<le> n div 2 \<and> n div 2 < 2 ^ bitlength (n div 2)"
      using "1.IH" "1.prems" pos by simp
    have bl: "bitlength n = Suc (bitlength (n div 2))"
      using "1.prems" by (subst bitlength.simps) simp
    have bpos: "0 < bitlength (n div 2)" using pos by (subst bitlength.simps) simp
    then obtain k where k: "bitlength (n div 2) = Suc k" by (cases "bitlength (n div 2)") simp_all
    have a: "2 * (n div 2) \<le> n" by simp
    have b: "n < 2 * (n div 2) + 2" by linarith
    show ?thesis using ih a b unfolding bl k by simp
  qed
qed

lemma powi_nat: "0 \<le> e \<Longrightarrow> (2::rat) powi e = 2 ^ nat e"
  by (simp add: power_int_def)

lemma exponent_bounds:
  assumes "q \<noteq> 0"
  shows "2 powi exponent q \<le> \<bar>q\<bar> \<and> \<bar>q\<bar> < 2 powi (exponent q + 1)"
proof (cases "1 \<le> \<bar>q\<bar>")
  case True
  let ?n = "\<lfloor>\<bar>q\<bar>\<rfloor>"
  have n: "0 < ?n" using True by simp
  have e: "exponent q = int (bitlength ?n) - 1" using True by (simp add: exponent_def)
  from bitlength_bounds[OF n] have lo: "2 ^ (bitlength ?n - 1) \<le> ?n" and hi: "?n < 2 ^ bitlength ?n"
    by simp_all
  have bpos: "0 < bitlength ?n" using n by (subst bitlength.simps) simp
  have e1: "nat (exponent q) = bitlength ?n - 1" "0 \<le> exponent q" using e bpos by simp_all
  have e2: "nat (exponent q + 1) = bitlength ?n" "0 \<le> exponent q + 1" using e by simp_all
  have "(2::rat) ^ (bitlength ?n - 1) \<le> of_int ?n" using lo
    by (metis of_int_le_iff of_int_numeral of_int_power)
  also have "\<dots> \<le> \<bar>q\<bar>" by simp
  finally have A: "2 powi exponent q \<le> \<bar>q\<bar>" using e1 by (simp add: powi_nat)
  have "?n + 1 \<le> 2 ^ bitlength ?n" using hi by simp
  then have "(of_int (?n + 1) :: rat) \<le> 2 ^ bitlength ?n"
    by (metis of_int_le_iff of_int_numeral of_int_power)
  moreover have "\<bar>q\<bar> < of_int (?n + 1)" by linarith
  ultimately have B: "\<bar>q\<bar> < 2 powi (exponent q + 1)" using e2 by (simp add: powi_nat)
  show ?thesis using A B by simp
next
  case False
  let ?r = "1 / \<bar>q\<bar>"
  let ?m = "\<lceil>?r\<rceil>"
  let ?k = "bitlength (?m - 1)"
  have qpos: "0 < \<bar>q\<bar>" using assms by simp
  have r1: "1 < ?r" using False qpos by simp
  then have m2: "2 \<le> ?m" by linarith
  then have m1: "0 < ?m - 1" by simp
  have e: "exponent q = - int ?k" using False by (simp add: exponent_def)
  from bitlength_bounds[OF m1] have lo: "2 ^ (?k - 1) \<le> ?m - 1" and hi: "?m - 1 < 2 ^ ?k"
    by simp_all
  have kpos: "0 < ?k" using m1 by (subst bitlength.simps) simp
  have "?m \<le> 2 ^ ?k" using hi by simp
  then have "(of_int ?m :: rat) \<le> 2 ^ ?k" by (metis of_int_le_iff of_int_numeral of_int_power)
  moreover have "?r \<le> of_int ?m" by simp
  ultimately have "?r \<le> 2 ^ ?k" by linarith
  then have "1 \<le> 2 ^ ?k * \<bar>q\<bar>" using qpos by (simp add: field_simps)
  then have A: "1 / 2 ^ ?k \<le> \<bar>q\<bar>" by (simp add: field_simps)
  have "(2::rat) ^ (?k - 1) \<le> of_int (?m - 1)" using lo
    by (metis of_int_le_iff of_int_numeral of_int_power)
  moreover have "of_int (?m - 1) < ?r" by linarith
  ultimately have "(2::rat) ^ (?k - 1) < ?r" by linarith
  then have "2 ^ (?k - 1) * \<bar>q\<bar> < 1" using qpos by (simp add: field_simps)
  then have B: "\<bar>q\<bar> < 1 / 2 ^ (?k - 1)" by (simp add: field_simps)
  have p1: "(2::rat) powi exponent q = 1 / 2 ^ ?k"
    unfolding e by (simp add: power_int_minus field_simps)
  obtain j where j: "?k = Suc j" using kpos by (cases ?k) simp_all
  have p2: "(2::rat) powi (exponent q + 1) = 1 / 2 ^ (?k - 1)"
    unfolding e j by (simp add: power_int_minus field_simps power_int_def)
  show ?thesis using A B p1 p2 by simp
qed

lemma round_error: "\<bar>of_int (roundTiesToEven m) - m\<bar> \<le> 1 / 2"
proof -
  have "of_int \<lfloor>m\<rfloor> \<le> m" "m < of_int \<lfloor>m\<rfloor> + 1" by linarith+
  then show ?thesis by (auto simp: roundTiesToEven_def Let_def)
qed

lemma fl_rel_error: "\<bar>fl q - q\<bar> \<le> \<bar>q\<bar> / 2 ^ 53"
proof (cases "q = 0")
  case True
  then show ?thesis by (simp add: fl_def)
next
  case False
  define u :: rat where "u = 2 powi (exponent q - 52)"
  have upos: "0 < u" by (simp add: u_def)
  have u2: "u = 2 powi exponent q / 2 ^ 52" by (simp add: u_def power_int_diff)
  have "fl q - q = (of_int (roundTiesToEven (q / u)) - q / u) * u"
    using False upos by (simp add: fl_def u_def[symmetric] field_simps)
  then have "\<bar>fl q - q\<bar> = \<bar>of_int (roundTiesToEven (q / u)) - q / u\<bar> * u"
    using upos by (simp add: abs_mult)
  also have "\<dots> \<le> 1 / 2 * u" using round_error[of "q / u"] upos by (simp add: mult_right_mono)
  also have "\<dots> = 2 powi exponent q / 2 ^ 53" by (simp add: u2)
  also have "\<dots> \<le> \<bar>q\<bar> / 2 ^ 53" using exponent_bounds[OF False] by (simp add: divide_right_mono)
  finally show ?thesis .
qed

lemma fl_abs_error:
  assumes "\<bar>q\<bar> \<le> B"
  shows "\<bar>fl q - q\<bar> \<le> B / 2 ^ 53"
proof -
  have "\<bar>q\<bar> / 2 ^ 53 \<le> B / 2 ^ 53" using assms by (simp add: divide_right_mono)
  then show ?thesis using fl_rel_error[of q] by linarith
qed


text \<open>Below 16384 in magnitude, rounding moves a value by less than \<open>1 / 10 ^ 11\<close>.\<close>

lemma fl_near:
  assumes "\<bar>q\<bar> \<le> 16384"
  shows "q - 1 / 10 ^ 11 \<le> fl q \<and> fl q \<le> q + 1 / 10 ^ 11"
proof -
  have "\<bar>fl q - q\<bar> \<le> 16384 / 2 ^ 53" by (rule fl_abs_error[OF assms])
  moreover have "(16384 :: rat) / 2 ^ 53 \<le> 1 / 10 ^ 11" by simp
  ultimately show ?thesis by linarith
qed

section \<open>Placement geometry\<close>

subsection \<open>The arithmetic at the sample requests\<close>

text \<open>
  The values the operations of the host compute at the sample requests: size 300 with
  20, 50 and 30 percent, where every step is exact; size 110 with 16 percent; and size 100
  with a percentage of \<open>1 / 2 ^ 47\<close>.
\<close>

lemma samples0:
  "fdiv (fmul 300 20) 100 = 60" "fdiv (fsub 300 60) 2 = 120" "fmul 60 (fl (1 / 10)) = 6"
  "fsub 120 6 = 114" "fmul 6 2 = 12" "fadd 60 12 = 72" "fdiv 72 2 = 36" "fdiv 60 2 = 30"
  "fadd 120 30 = 150" "fadd 114 36 = 150"
  by code_simp+

lemma samples110:
  "fdiv (fmul 110 16) 100 = 2476979795053773 / 140737488355328"
  "fdiv (fsub 110 (2476979795053773 / 140737488355328)) 2 = 3251035981008077 / 70368744177664"
  "fmul (2476979795053773 / 140737488355328) (fl (1 / 10)) = 3963167672086037 / 2251799813685248"
  "fmul (3963167672086037 / 2251799813685248) 2 = 3963167672086037 / 1125899906842624"
  "fadd (2476979795053773 / 140737488355328) (3963167672086037 / 1125899906842624)
     = 5944751508129055 / 281474976710656"
  "fdiv (5944751508129055 / 281474976710656) 2 = 5944751508129055 / 562949953421312"
  "fdiv (2476979795053773 / 140737488355328) 2 = 2476979795053773 / 281474976710656"
  "fsub (3251035981008077 / 70368744177664) (3963167672086037 / 2251799813685248)
     = 6254373982510777 / 140737488355328"
  "fadd (6254373982510777 / 140737488355328) (5944751508129055 / 562949953421312)
     = 7740561859543041 / 140737488355328"
  "fadd (3251035981008077 / 70368744177664) (2476979795053773 / 281474976710656) = 55"
  by code_simp+

lemma samplesTiny:
  "fdiv (fmul 100 (1 / 140737488355328)) 100 = 1 / 140737488355328"
  "fdiv (fsub 100 (1 / 140737488355328)) 2 = 50"
  "fmul (1 / 140737488355328) (fl (1 / 10)) = 3602879701896397 / 5070602400912917605986812821504"
  "fmul (3602879701896397 / 5070602400912917605986812821504) 2
     = 3602879701896397 / 2535301200456458802993406410752"
  "fadd (1 / 140737488355328) (3602879701896397 / 2535301200456458802993406410752)
     = 5404319552844595 / 633825300114114700748351602688"
  "fdiv (5404319552844595 / 633825300114114700748351602688) 2
     = 5404319552844595 / 1267650600228229401496703205376"
  "fdiv (1 / 140737488355328) 2 = 1 / 281474976710656"
  "fsub 50 (3602879701896397 / 5070602400912917605986812821504) = 50"
  "fadd 50 (5404319552844595 / 1267650600228229401496703205376)
     = 7036874417766401 / 140737488355328"
  "fadd 50 (1 / 281474976710656) = 50"
  by code_simp+


lemma fl_tenth: "fl (1 / 10) = 3602879701896397 / 36028797018963968"
  by code_simp

subsection \<open>What the two entry points produce when a logo is present\<close>

lemma generate_with_logo:
  assumes "\<not> blank (qr_text opts)" and "canvasMounted env"
    and "accepts (qrcode env) (qr_text opts) (errorCorrectionLevel opts)"
    and "logoFile opts = Some f" and "decode env f = Some img"
  shows "qrDataUrl (generateQRCode env opts isDarkMode st)
           = PngOf (DrawQR (qr_text opts) (qr_size opts) (errorCorrectionLevel opts)
                      (darkColor isDarkMode) (lightColor isDarkMode) # drawLogo opts isDarkMode img)"
    and "qrSvgString (generateQRCode env opts isDarkMode st)
           = svgOf (qrcode env) (qr_text opts) (qr_size opts) (errorCorrectionLevel opts)
               (darkColor isDarkMode) (lightColor isDarkMode)"
  using assms by (simp_all add: generateQRCode_def Let_def)

lemma generate_canvas:
  assumes "\<not> blank (qr_text opts)" and "canvasMounted env"
    and "accepts (qrcode env) (qr_text opts) (errorCorrectionLevel opts)"
    and "logoFile opts = Some f" and "decode env f = Some img"
  shows "canvas (generateQRCode env opts isDarkMode st)
           = DrawQR (qr_text opts) (qr_size opts) (errorCorrectionLevel opts)
                      (darkColor isDarkMode) (lightColor isDarkMode) # drawLogo opts isDarkMode img"
  using assms by (simp_all add: generateQRCode_def Let_def)



lemma download_svg_with_logo:
  assumes "qrSvgString st \<noteq> []" and "logoFile opts = Some f" and "logoUrl denv f = Some url"
  shows "downloadQRCode denv opts isDarkMode timestamp Svg st
           = Some (SvgDownload (baseFilename timestamp @ ''.svg'')
               (js_replace (qrSvgString st) ''</svg>''
                  (renderElem (fmt denv) (backgroundRect opts isDarkMode)
                   @ renderElem (fmt denv) (logoElement opts url) @ ''</svg>'')))"
  using assms by (simp add: downloadQRCode_def)

lemma drawLogo_layers:
  "canvas_layers ctx0 (DrawQR t w e dk lt # drawLogo opts d img) =
     [(if logoShape opts = Rounded
       then Disc (fadd (fsub (logo_x opts) (logo_padding opts))
                    (fdiv (fadd (logoSizePixels opts) (fmul (logo_padding opts) 2)) 2))
                 (fadd (fsub (logo_y opts) (logo_padding opts))
                    (fdiv (fadd (logoSizePixels opts) (fmul (logo_padding opts) 2)) 2))
                 (fdiv (fadd (logoSizePixels opts) (fmul (logo_padding opts) 2)) 2)
       else Box (fsub (logo_x opts) (logo_padding opts)) (fsub (logo_y opts) (logo_padding opts))
                (fadd (logoSizePixels opts) (fmul (logo_padding opts) 2))
                (fadd (logoSizePixels opts) (fmul (logo_padding opts) 2)),
       Colour (lightColor d)),
      (if logoShape opts = Rounded
       then Inter (Disc (fadd (logo_x opts) (fdiv (logoSizePixels opts) 2))
                        (fadd (logo_y opts) (fdiv (logoSizePixels opts) 2))
                        (fdiv (logoSizePixels opts) 2))
                  (Box (logo_x opts) (logo_y opts) (logoSizePixels opts) (logoSizePixels opts))
       else Box (logo_x opts) (logo_y opts) (logoSizePixels opts) (logoSizePixels opts),
       Picture img)]"
  by (simp add: drawLogo_def ctx0_def clipped_def Let_def)

lemma drawLogo_image:
  "DrawImage img (logo_x opts) (logo_y opts) (logoSizePixels opts) (logoSizePixels opts)
     \<in> set (DrawQR t w e dk lt # drawLogo opts d img)"
  by (simp add: drawLogo_def Let_def)

lemmas geometry_defs = logoSizePixels_def logo_x_def logo_y_def logo_padding_def
  svg_logoSize_def svg_x_def svg_y_def svg_padding_def

lemma sample_request:
  "\<not> blank (qr_text opts0)" "canvasMounted env0"
  "accepts (qrcode env0) (qr_text opts0) (errorCorrectionLevel opts0)"
  "logoFile opts0 = Some (Upload ''logo.png'')"
  "decode env0 (Upload ''logo.png'') = Some (Image (Upload ''logo.png''))"
  "logoUrl denv0 (Upload ''logo.png'') = Some ''data:image/png;base64,AAAA''"
  "svgOf (qrcode env0) (qr_text opts0) (qr_size opts0) (errorCorrectionLevel opts0)
     (darkColor False) (lightColor False) \<noteq> []"
  by (simp_all add: opts0_def env0_def denv0_def blank_def trim_def isWhiteSpace_def)

lemma sample_name: "baseFilename 1700 = ''qrbrandr-qr-code-1700''"
  by (simp add: baseFilename_def show_nat.simps digit_def)

lemma sample_render:
  \<open>renderElem (fmt denv0) (SvgCircle 150 150 36 ''#ffffff'')
      = ''<circle cx="150" cy="150" r="36" fill="#ffffff"/>''\<close>
  \<open>renderElem (fmt denv0) (SvgClippedImage 150 150 30 120 120 60 60 ''data:image/png;base64,AAAA'')
      = ''<defs><clipPath id="logoClip"><circle cx="150" cy="150" r="30"/></clipPath></defs><image x="120" y="120" width="60" height="60" href="data:image/png;base64,AAAA" clip-path="url(#logoClip)"/>''\<close>
  by (simp_all add: denv0_def attr_def)

text \<open>
  C1. For every request that is generated with a decoded logo, with
  \<open>L = size * logoSize / 100\<close> and \<open>x = (size - L) / 2\<close> (each operation the host's):
  the image that \<^verbatim>\<open>generateQRCode\<close> stores has the logo drawn at \<open>(x, x)\<close> with side \<open>L\<close>,
  the same value on both axes, and its logo layer is the box of origin \<open>(x, x)\<close> and side
  \<open>L\<close>, clipped when rounded to the disc of radius \<open>L / 2\<close> about \<open>(x + L / 2, x + L / 2)\<close>;
  the vector file that \<^verbatim>\<open>downloadQRCode\<close> saves for the generated state has, before the
  closing tag, a background element followed by the logo element, and the region of that
  logo element is the same region: both paths compute the same placement.
\<close>

theorem C1_centering:
  fixes opts :: QROptions and url :: string
    and L x h :: number and lg :: shape and lgEl :: svg_elem
  defines "L \<equiv> fdiv (fmul (qr_size opts) (logoSize opts)) 100"
  defines "x \<equiv> fdiv (fsub (qr_size opts) L) 2"
    and "h \<equiv> fdiv L 2"
  defines "lg \<equiv> (if logoShape opts = Rounded
                   then Inter (Disc (fadd x h) (fadd x h) h) (Box x x L L) else Box x x L L)"
    and "lgEl \<equiv> (if logoShape opts = Rounded
                   then SvgClippedImage (fadd x h) (fadd x h) h x x L L url
                   else SvgImage x x L L url)"
  assumes gen_ok: "\<not> blank (qr_text opts)" "canvasMounted env"
      "accepts (qrcode env) (qr_text opts) (errorCorrectionLevel opts)"
      "logoFile opts = Some f" "decode env f = Some img"
    and url_ok: "logoUrl denv f = Some url"
    and svg_ok: "svgOf (qrcode env) (qr_text opts) (qr_size opts) (errorCorrectionLevel opts)
           (darkColor isDarkMode) (lightColor isDarkMode) \<noteq> []"
  shows "(\<exists>ops bg. qrDataUrl (generateQRCode env opts isDarkMode st) = PngOf ops
            \<and> DrawImage img x x L L \<in> set ops
            \<and> canvas_layers ctx0 ops = [bg, (lg, Picture img)])
       \<and> (\<exists>bgEl. downloadQRCode denv opts isDarkMode timestamp Svg
                     (generateQRCode env opts isDarkMode st)
                   = Some (SvgDownload (baseFilename timestamp @ ''.svg'')
                       (js_replace
                          (svgOf (qrcode env) (qr_text opts) (qr_size opts)
                             (errorCorrectionLevel opts) (darkColor isDarkMode)
                             (lightColor isDarkMode))
                          ''</svg>''
                          (renderElem (fmt denv) bgEl @ renderElem (fmt denv) lgEl @ ''</svg>'')))
            \<and> svg_layer lgEl = (lg, Href url))"
proof -
  note gen = generate_with_logo[OF gen_ok, of isDarkMode st]
  have ne: "qrSvgString (generateQRCode env opts isDarkMode st) \<noteq> []"
    unfolding gen(2) by (rule svg_ok)
  note dl = download_svg_with_logo[OF ne gen_ok(4) url_ok, of isDarkMode timestamp]
  have le: "logoElement opts url = lgEl"
    by (simp add: logoElement_def lgEl_def geometry_defs L_def x_def h_def)
  have lay: "svg_layer lgEl = (lg, Href url)" by (simp add: lgEl_def lg_def)
  have im: "DrawImage img x x L L
      \<in> set (DrawQR (qr_text opts) (qr_size opts) (errorCorrectionLevel opts)
                (darkColor isDarkMode) (lightColor isDarkMode) # drawLogo opts isDarkMode img)"
    using drawLogo_image[of img opts] by (simp add: geometry_defs L_def x_def)
  have cl: "\<exists>bg. canvas_layers ctx0
       (DrawQR (qr_text opts) (qr_size opts) (errorCorrectionLevel opts)
          (darkColor isDarkMode) (lightColor isDarkMode) # drawLogo opts isDarkMode img)
       = [bg, (lg, Picture img)]"
    unfolding drawLogo_layers by (simp add: lg_def geometry_defs L_def x_def h_def)
  have A: "\<exists>ops bg. qrDataUrl (generateQRCode env opts isDarkMode st) = PngOf ops
            \<and> DrawImage img x x L L \<in> set ops
            \<and> canvas_layers ctx0 ops = [bg, (lg, Picture img)]"
    unfolding gen(1) using im cl by blast
  have B: "\<exists>bgEl. downloadQRCode denv opts isDarkMode timestamp Svg
                     (generateQRCode env opts isDarkMode st)
                   = Some (SvgDownload (baseFilename timestamp @ ''.svg'')
                       (js_replace
                          (svgOf (qrcode env) (qr_text opts) (qr_size opts)
                             (errorCorrectionLevel opts) (darkColor isDarkMode)
                             (lightColor isDarkMode))
                          ''</svg>''
                          (renderElem (fmt denv) bgEl @ renderElem (fmt denv) lgEl @ ''</svg>'')))
            \<and> svg_layer lgEl = (lg, Href url)"
    using dl lay unfolding gen(2) le by blast
  show ?thesis using A B by (rule conjI)
qed

text \<open>The theorem at the sample request (size 300, 20 percent, rounded).\<close>

theorem C1_centering_witness:
  "\<not> blank (qr_text opts0) \<and> canvasMounted env0
   \<and> accepts (qrcode env0) (qr_text opts0) (errorCorrectionLevel opts0)
   \<and> logoFile opts0 = Some (Upload ''logo.png'')
   \<and> decode env0 (Upload ''logo.png'') = Some (Image (Upload ''logo.png''))
   \<and> logoUrl denv0 (Upload ''logo.png'') = Some ''data:image/png;base64,AAAA''
   \<and> svgOf (qrcode env0) (qr_text opts0) (qr_size opts0) (errorCorrectionLevel opts0)
        (darkColor False) (lightColor False) \<noteq> []
   \<and> (\<exists>ops bg. qrDataUrl (generateQRCode env0 opts0 False st0) = PngOf ops
          \<and> DrawImage (Image (Upload ''logo.png'')) 120 120 60 60 \<in> set ops
          \<and> canvas_layers ctx0 ops
              = [bg, (Inter (Disc 150 150 30) (Box 120 120 60 60), Picture (Image (Upload ''logo.png'')))])
   \<and> (\<exists>bgEl. downloadQRCode denv0 opts0 False 1700 Svg (generateQRCode env0 opts0 False st0)
               = Some (SvgDownload ''qrbrandr-qr-code-1700.svg''
                   (js_replace ''<svg></svg>'' ''</svg>''
                      (renderElem (fmt denv0) bgEl
                       @ renderElem (fmt denv0)
                           (SvgClippedImage 150 150 30 120 120 60 60 ''data:image/png;base64,AAAA'')
                       @ ''</svg>''))))"
proof -
  have v: "qr_size opts0 = 300" "logoSize opts0 = 20" "logoShape opts0 = Rounded"
      "qr_text opts0 = ''https://example.com''" "errorCorrectionLevel opts0 = EcH"
      "svgOf (qrcode env0) = (\<lambda>t w e d l. ''<svg></svg>'')"
    by (simp_all add: opts0_def env0_def)
  from C1_centering[OF sample_request, where st = st0 and timestamp = 1700]
  have "(\<exists>ops bg. qrDataUrl (generateQRCode env0 opts0 False st0) = PngOf ops
          \<and> DrawImage (Image (Upload ''logo.png'')) 120 120 60 60 \<in> set ops
          \<and> canvas_layers ctx0 ops
              = [bg, (Inter (Disc 150 150 30) (Box 120 120 60 60), Picture (Image (Upload ''logo.png'')))])
   \<and> (\<exists>bgEl. downloadQRCode denv0 opts0 False 1700 Svg (generateQRCode env0 opts0 False st0)
               = Some (SvgDownload ''qrbrandr-qr-code-1700.svg''
                   (js_replace ''<svg></svg>'' ''</svg>''
                      (renderElem (fmt denv0) bgEl
                       @ renderElem (fmt denv0)
                           (SvgClippedImage 150 150 30 120 120 60 60 ''data:image/png;base64,AAAA'')
                       @ ''</svg>''))))"
    unfolding v samples0 sample_name by simp
  then show ?thesis using sample_request by simp
qed

subsection \<open>The background and the logo\<close>

lemma disc_in_box:
  fixes u v cx cy r :: rat
  assumes "(u - cx) * (u - cx) + (v - cy) * (v - cy) \<le> r * r" and "0 \<le> r"
  shows "\<bar>u - cx\<bar> \<le> r \<and> \<bar>v - cy\<bar> \<le> r"
proof -
  have nn: "0 \<le> (u - cx) * (u - cx)" "0 \<le> (v - cy) * (v - cy)" by simp_all
  have a: "(u - cx)\<^sup>2 \<le> r\<^sup>2" and b: "(v - cy)\<^sup>2 \<le> r\<^sup>2"
    using assms(1) nn unfolding power2_eq_square by linarith+
  have "\<bar>u - cx\<bar> \<le> \<bar>r\<bar>" using a abs_le_square_iff by blast
  moreover have "\<bar>v - cy\<bar> \<le> \<bar>r\<bar>" using b abs_le_square_iff by blast
  ultimately show ?thesis using assms(2) by simp
qed

text \<open>
  A disc of radius \<open>h\<close> lies in the interior of a disc of radius \<open>R\<close> whose centre is
  off by at most \<open>D\<close> on each axis, when \<open>h + 2 * D < R\<close>.
\<close>

lemma disc_in_disc:
  fixes u v a b a' b' h D R :: rat
  assumes ins: "(u - a) * (u - a) + (v - b) * (v - b) \<le> h * h" and h: "0 \<le> h"
    and da: "\<bar>a - a'\<bar> \<le> D" and db: "\<bar>b - b'\<bar> \<le> D" and room: "h + 2 * D < R"
  shows "(u - a') * (u - a') + (v - b') * (v - b') < R * R"
proof -
  define p where "p = u - a"
  define q where "q = v - b"
  define s where "s = a - a'"
  define t where "t = b - b'"
  have D0: "0 \<le> D" using da by linarith
  have pq: "\<bar>p\<bar> \<le> h" "\<bar>q\<bar> \<le> h" using disc_in_box[OF ins h] by (simp_all add: p_def q_def)
  have st: "\<bar>s\<bar> \<le> D" "\<bar>t\<bar> \<le> D" using da db by (simp_all add: s_def t_def)
  have ps: "p * s \<le> h * D"
  proof -
    have "p * s \<le> \<bar>p * s\<bar>" by simp
    also have "\<dots> = \<bar>p\<bar> * \<bar>s\<bar>" by (simp add: abs_mult)
    also have "\<dots> \<le> h * D" using pq(1) st(1) by (intro mult_mono) simp_all
    finally show ?thesis .
  qed
  have qt: "q * t \<le> h * D"
  proof -
    have "q * t \<le> \<bar>q * t\<bar>" by simp
    also have "\<dots> = \<bar>q\<bar> * \<bar>t\<bar>" by (simp add: abs_mult)
    also have "\<dots> \<le> h * D" using pq(2) st(2) by (intro mult_mono) simp_all
    finally show ?thesis .
  qed
  have ss: "s * s \<le> D * D"
  proof -
    have "s * s = \<bar>s\<bar> * \<bar>s\<bar>" by simp
    also have "\<dots> \<le> D * D" using st(1) by (intro mult_mono) simp_all
    finally show ?thesis .
  qed
  have tt: "t * t \<le> D * D"
  proof -
    have "t * t = \<bar>t\<bar> * \<bar>t\<bar>" by simp
    also have "\<dots> \<le> D * D" using st(2) by (intro mult_mono) simp_all
    finally show ?thesis .
  qed
  have "(u - a') * (u - a') + (v - b') * (v - b')
        = (p * p + q * q) + 2 * (p * s) + 2 * (q * t) + s * s + t * t"
    by (simp add: p_def q_def s_def t_def algebra_simps)
  also have "\<dots> \<le> h * h + 2 * (h * D) + 2 * (h * D) + D * D + D * D"
  proof -
    have "p * p + q * q \<le> h * h" using ins by (simp add: p_def q_def)
    then show ?thesis using ps qt ss tt by linarith
  qed
  also have "\<dots> \<le> (h + 2 * D) * (h + 2 * D)"
  proof -
    have "0 \<le> 2 * (D * D)" using D0 by simp
    moreover have "(h + 2 * D) * (h + 2 * D) = h * h + 2 * (h * D) + 2 * (h * D) + 4 * (D * D)"
      by (simp add: algebra_simps)
    ultimately show ?thesis by linarith
  qed
  also have "\<dots> < R * R"
  proof -
    have "0 \<le> h + 2 * D" using h D0 by simp
    then show ?thesis using room by (intro mult_strict_mono') simp_all
  qed
  finally show ?thesis .
qed

text \<open>
  The geometry at the settings the form allows (sizes 100 to 400, percentages 10 to 30):
  every rounding error is below \<open>1 / 10 ^ 11\<close>, so the padding keeps the background
  larger than the logo, and the two centres of the raster path differ by at most
  \<open>1 / 10 ^ 10\<close>.
\<close>

lemma geometry_bounds:
  fixes s p L x pad W R h cX lx :: rat
  assumes s: "100 \<le> s" "s \<le> 400" and p: "10 \<le> p" "p \<le> 30"
  defines "L \<equiv> fdiv (fmul s p) 100"
    and "x \<equiv> fdiv (fsub s (fdiv (fmul s p) 100)) 2"
    and "pad \<equiv> fmul (fdiv (fmul s p) 100) (fl (1 / 10))"
  defines "W \<equiv> fadd L (fmul pad 2)"
  defines "R \<equiv> fdiv W 2"
    and "h \<equiv> fdiv L 2"
  defines "cX \<equiv> fadd (fsub x pad) R"
    and "lx \<equiv> fadd x h"
  shows "0 < L \<and> 0 \<le> h \<and> 0 \<le> W \<and> h < R \<and> h + 2 * (1 / 10 ^ 10) < R
       \<and> \<bar>lx - cX\<bar> \<le> 1 / 10 ^ 10
       \<and> fsub x pad < x \<and> x + L < fsub x pad + W"
proof -
  define e :: rat where "e = 1 / 100000000000"
  define c :: rat where "c = 3602879701896397 / 36028797018963968"
  have near: "q - e \<le> fl q \<and> fl q \<le> q + e" if "\<bar>q\<bar> \<le> 16384" for q
    using fl_near[OF that] by (simp add: e_def)
  note ev = e_def
  have cv: "fl (1 / 10) = c" by (simp add: c_def fl_tenth)
  have sp1: "1000 \<le> s * p"
  proof -
    have "100 * 10 \<le> s * p" using s p by (intro mult_mono) simp_all
    then show ?thesis by simp
  qed
  have sp2: "s * p \<le> 12000"
  proof -
    have "s * p \<le> 400 * 30" using s p by (intro mult_mono) simp_all
    then show ?thesis by simp
  qed
  define sp where "sp = fl (s * p)"
  define d where "d = fl (s - L)"
  define p2 where "p2 = fl (pad * 2)"
  define cA where "cA = fl (x - pad)"
  have Le: "L = fl (sp / 100)" by (simp only: L_def sp_def fdiv_def fmul_def)
  have xe: "x = fl (d / 2)" by (simp only: x_def d_def L_def fdiv_def fmul_def fsub_def)
  have pe: "pad = fl (L * c)" by (simp only: pad_def L_def fmul_def cv)
  have We: "W = fl (L + p2)" by (simp only: W_def p2_def fadd_def fmul_def)
  have Re: "R = fl (W / 2)" by (simp only: R_def fdiv_def)
  have he: "h = fl (L / 2)" by (simp only: h_def fdiv_def)
  have ce: "cX = fl (cA + R)" by (simp only: cX_def cA_def fadd_def fsub_def)
  have le: "lx = fl (x + h)" by (simp only: lx_def fadd_def)
  have fe: "fsub x pad = cA" by (simp only: cA_def fsub_def)
  have m1: "\<bar>s * p\<bar> \<le> 16384" using sp1 sp2 by linarith
  have b1: "s * p - e \<le> sp" "sp \<le> s * p + e" using near[OF m1] unfolding sp_def by blast+
  have m2: "\<bar>sp / 100\<bar> \<le> 16384" using b1 sp1 sp2 ev by linarith
  have b2: "sp / 100 - e \<le> L" "L \<le> sp / 100 + e" using near[OF m2] unfolding Le by blast+
  have Lr: "9 \<le> L" "L \<le> 121" using b1 b2 sp1 sp2 ev by linarith+
  have m3: "\<bar>s - L\<bar> \<le> 16384" using s Lr by linarith
  have b3: "s - L - e \<le> d" "d \<le> s - L + e" using near[OF m3] unfolding d_def by blast+
  have m4: "\<bar>d / 2\<bar> \<le> 16384" using b3 s Lr ev by linarith
  have b4: "d / 2 - e \<le> x" "x \<le> d / 2 + e" using near[OF m4] unfolding xe by blast+
  have xr: "-20 \<le> x" "x \<le> 200" using b3 b4 s Lr ev by linarith+
  have m5: "\<bar>L * c\<bar> \<le> 16384" using Lr unfolding c_def by linarith
  have b5: "L * c - e \<le> pad" "pad \<le> L * c + e" using near[OF m5] unfolding pe by blast+
  have pr: "8 / 10 \<le> pad" "pad \<le> 13" using b5 Lr ev unfolding c_def by linarith+
  have m6: "\<bar>pad * 2\<bar> \<le> 16384" using pr by linarith
  have b6: "pad * 2 - e \<le> p2" "p2 \<le> pad * 2 + e" using near[OF m6] unfolding p2_def by blast+
  have m7: "\<bar>L + p2\<bar> \<le> 16384" using b6 pr Lr ev by linarith
  have b7: "L + p2 - e \<le> W" "W \<le> L + p2 + e" using near[OF m7] unfolding We by blast+
  have m8: "\<bar>W / 2\<bar> \<le> 16384" using b7 b6 pr Lr ev by linarith
  have b8: "W / 2 - e \<le> R" "R \<le> W / 2 + e" using near[OF m8] unfolding Re by blast+
  have m9: "\<bar>L / 2\<bar> \<le> 16384" using Lr by linarith
  have b9: "L / 2 - e \<le> h" "h \<le> L / 2 + e" using near[OF m9] unfolding he by blast+
  have m10: "\<bar>x - pad\<bar> \<le> 16384" using xr pr by linarith
  have b10: "x - pad - e \<le> cA" "cA \<le> x - pad + e" using near[OF m10] unfolding cA_def by blast+
  have m11: "\<bar>cA + R\<bar> \<le> 16384" using b10 b8 b7 b6 xr pr Lr ev by linarith
  have b11: "cA + R - e \<le> cX" "cX \<le> cA + R + e" using near[OF m11] unfolding ce by blast+
  have m12: "\<bar>x + h\<bar> \<le> 16384" using b9 xr Lr ev by linarith
  have b12: "x + h - e \<le> lx" "lx \<le> x + h + e" using near[OF m12] unfolding le by blast+
  have r1: "0 < L" using Lr by linarith
  have r2: "0 \<le> h" using b9 Lr ev by linarith
  have r3: "0 \<le> W" using b7 b6 pr Lr ev by linarith
  have r5: "h + 2 * (1 / 10 ^ 10) < R"
  proof -
    have "h + 2 * (1 / 10000000000) < R" using b9 b8 b7 b6 pr ev by linarith
    then show ?thesis by simp
  qed
  have r4: "h < R" using b9 b8 b7 b6 pr ev by linarith
  have r6: "\<bar>lx - cX\<bar> \<le> 1 / 10 ^ 10"
  proof -
    have "lx - cX \<le> 1 / 10000000000" using b12 b11 b10 b9 b8 b7 b6 ev by linarith
    moreover have "- (1 / 10000000000) \<le> lx - cX" using b12 b11 b10 b9 b8 b7 b6 ev by linarith
    ultimately have "\<bar>lx - cX\<bar> \<le> 1 / 10000000000" by linarith
    moreover have "(1 :: rat) / 10 ^ 10 = 1 / 10000000000" by simp
    ultimately show ?thesis by (simp only:)
  qed
  have r7: "fsub x pad < x" unfolding fe using b10 pr ev by linarith
  have r8: "x + L < fsub x pad + W" unfolding fe using b10 b7 b6 pr ev by linarith
  show ?thesis using r1 r2 r3 r4 r5 r6 r7 r8 by blast
qed

text \<open>
  Containment of the logo's region in the interior of a background, for the shapes of
  the two paths, from the bounds of the rounded geometry.
\<close>

lemma rounded_contained:
  fixes lx cX h R x L D :: rat
  assumes "0 \<le> h" and "\<bar>lx - cX\<bar> \<le> D" and "h + 2 * D < R"
    and "inside (Inter (Disc lx lx h) (Box x x L L)) q"
  shows "interior (Disc cX cX R) q"
proof (cases q)
  case (Pair u v)
  have "(u - lx) * (u - lx) + (v - lx) * (v - lx) \<le> h * h"
    using assms(4) by (simp add: Pair)
  then have "(u - cX) * (u - cX) + (v - cX) * (v - cX) < R * R"
    by (rule disc_in_disc[OF _ assms(1) assms(2) assms(2) assms(3)])
  then show ?thesis by (simp add: Pair)
qed

lemma square_contained:
  fixes x L x0 W :: rat
  assumes "x0 < x" and "x + L < x0 + W" and "inside (Box x x L L) q"
  shows "interior (Box x0 x0 W W) q"
  using assms by (cases q) auto

lemma boundary_not_logo:
  assumes "\<And>q. inside lg q \<Longrightarrow> interior bg q" and "inside bg q0" and "\<not> interior bg q0"
  shows "\<exists>q. inside bg q \<and> \<not> inside lg q"
  using assms by blast

lemma disc_boundary: "inside (Disc c c R) (c + R, c) \<and> \<not> interior (Disc c c R) (c + R, c)"
  by simp

lemma box_boundary: "0 \<le> W \<Longrightarrow> inside (Box a a W W) (a, a) \<and> \<not> interior (Box a a W W) (a, a)"
  by simp

text \<open>
  The claim C4 as stated (for every logo with a positive side the background is concentric
  with the logo and strictly contains its region, in both paths) fails in the raster path.
  At size 110 with 16 percent the centre of the background disc is computed as
  \<open>x - padding + radius = 55.00000000000001\<close>, the centre of the logo's clip as
  \<open>x + L / 2 = 55\<close>: the two are not concentric. At size 100 with a percentage of
  \<open>1 / 2 ^ 47\<close> the logo has the positive side \<open>1 / 2 ^ 47\<close>; the centre of the
  background disc is rounded to \<open>50.00000000000001\<close>, further from the logo's centre
  \<open>(50, 50)\<close> than the radius of the background, so the point \<open>(50, 50)\<close> of the logo's
  region is outside the background.
\<close>

theorem C4_counterexample:
  "0 < logoSizePixels opts110
   \<and> qrDataUrl (generateQRCode env0 opts110 False st0)
       = PngOf (canvas (generateQRCode env0 opts110 False st0))
   \<and> canvas_layers ctx0 (canvas (generateQRCode env0 opts110 False st0))
       = [(Disc (7740561859543041 / 140737488355328) (7740561859543041 / 140737488355328)
             (5944751508129055 / 562949953421312),
           Colour ''#ffffff''),
          (Inter (Disc 55 55 (2476979795053773 / 281474976710656))
             (Box (3251035981008077 / 70368744177664) (3251035981008077 / 70368744177664)
                (2476979795053773 / 140737488355328) (2476979795053773 / 140737488355328)),
           Picture (Image (Upload ''logo.png'')))]
   \<and> (7740561859543041 / 140737488355328 :: number) \<noteq> 55
   \<and> 0 < logoSizePixels optsTiny
   \<and> qrDataUrl (generateQRCode env0 optsTiny False st0)
       = PngOf (canvas (generateQRCode env0 optsTiny False st0))
   \<and> canvas_layers ctx0 (canvas (generateQRCode env0 optsTiny False st0))
       = [(Disc (7036874417766401 / 140737488355328) (7036874417766401 / 140737488355328)
             (5404319552844595 / 1267650600228229401496703205376),
           Colour ''#ffffff''),
          (Inter (Disc 50 50 (1 / 281474976710656))
             (Box 50 50 (1 / 140737488355328) (1 / 140737488355328)),
           Picture (Image (Upload ''logo.png'')))]
   \<and> inside (Inter (Disc 50 50 (1 / 281474976710656))
                (Box 50 50 (1 / 140737488355328) (1 / 140737488355328))) (50, 50)
   \<and> \<not> inside (Disc (7036874417766401 / 140737488355328) (7036874417766401 / 140737488355328)
                  (5404319552844595 / 1267650600228229401496703205376)) (50, 50)"
proof -
  have a: "\<not> blank (qr_text opts110)" "canvasMounted env0"
    "accepts (qrcode env0) (qr_text opts110) (errorCorrectionLevel opts110)"
    "logoFile opts110 = Some (Upload ''logo.png'')"
    "decode env0 (Upload ''logo.png'') = Some (Image (Upload ''logo.png''))"
    by (simp_all add: opts110_def env0_def blank_def trim_def isWhiteSpace_def)
  have b: "\<not> blank (qr_text optsTiny)" "canvasMounted env0"
    "accepts (qrcode env0) (qr_text optsTiny) (errorCorrectionLevel optsTiny)"
    "logoFile optsTiny = Some (Upload ''logo.png'')"
    "decode env0 (Upload ''logo.png'') = Some (Image (Upload ''logo.png''))"
    by (simp_all add: optsTiny_def env0_def blank_def trim_def isWhiteSpace_def)
  have va: "qr_size opts110 = 110" "logoSize opts110 = 16" "logoShape opts110 = Rounded"
    by (simp_all add: opts110_def)
  have vb: "qr_size optsTiny = 100" "logoSize optsTiny = 1 / 140737488355328"
      "logoShape optsTiny = Rounded"
    by (simp_all add: optsTiny_def)
  have ga: "logoSizePixels opts110 = 2476979795053773 / 140737488355328"
    by (simp only: geometry_defs va samples110)
  have gb: "logoSizePixels optsTiny = 1 / 140737488355328"
    by (simp only: geometry_defs vb samplesTiny)
  have 1: "0 < logoSizePixels opts110" unfolding ga by simp
  have 2: "qrDataUrl (generateQRCode env0 opts110 False st0)
       = PngOf (canvas (generateQRCode env0 opts110 False st0))"
    by (simp only: generate_with_logo(1)[OF a] generate_canvas[OF a])
  have 3: "canvas_layers ctx0 (canvas (generateQRCode env0 opts110 False st0))
       = [(Disc (7740561859543041 / 140737488355328) (7740561859543041 / 140737488355328)
             (5944751508129055 / 562949953421312),
           Colour ''#ffffff''),
          (Inter (Disc 55 55 (2476979795053773 / 281474976710656))
             (Box (3251035981008077 / 70368744177664) (3251035981008077 / 70368744177664)
                (2476979795053773 / 140737488355328) (2476979795053773 / 140737488355328)),
           Picture (Image (Upload ''logo.png'')))]"
    by (simp only: generate_canvas[OF a] drawLogo_layers geometry_defs va samples110
          lightColor_def if_True if_False simp_thms)
  have 4: "(7740561859543041 / 140737488355328 :: number) \<noteq> 55" by simp
  have 5: "0 < logoSizePixels optsTiny" unfolding gb by simp
  have 6: "qrDataUrl (generateQRCode env0 optsTiny False st0)
       = PngOf (canvas (generateQRCode env0 optsTiny False st0))"
    by (simp only: generate_with_logo(1)[OF b] generate_canvas[OF b])
  have 7: "canvas_layers ctx0 (canvas (generateQRCode env0 optsTiny False st0))
       = [(Disc (7036874417766401 / 140737488355328) (7036874417766401 / 140737488355328)
             (5404319552844595 / 1267650600228229401496703205376),
           Colour ''#ffffff''),
          (Inter (Disc 50 50 (1 / 281474976710656))
             (Box 50 50 (1 / 140737488355328) (1 / 140737488355328)),
           Picture (Image (Upload ''logo.png'')))]"
    by (simp only: generate_canvas[OF b] drawLogo_layers geometry_defs vb samplesTiny
          lightColor_def if_True if_False simp_thms)
  have 8: "inside (Inter (Disc 50 50 (1 / 281474976710656))
                (Box 50 50 (1 / 140737488355328) (1 / 140737488355328))) (50, 50)"
    by simp
  have 9: "\<not> inside (Disc (7036874417766401 / 140737488355328) (7036874417766401 / 140737488355328)
                  (5404319552844595 / 1267650600228229401496703205376)) (50, 50)"
    by code_simp
  show ?thesis using 1 2 3 4 5 6 7 8 9 by blast
qed

text \<open>
  C4, amended. For every request with a size from 100 to 400 and a logo percentage from 10
  to 30 (the settings the form allows) that is generated with a decoded logo: the image
  that \<^verbatim>\<open>generateQRCode\<close> stores has exactly two painted layers, the background in the
  light colour below the logo, and the vector file that \<^verbatim>\<open>downloadQRCode\<close> saves for the
  generated state has, inserted before the closing tag, the background element followed by
  the logo element. The background is a disc of radius \<open>(L + 2 * padding) / 2\<close> when
  rounded and a box of side \<open>L + 2 * padding\<close> at \<open>(x - padding, x - padding)\<close> otherwise;
  the logo's region is the box of side \<open>L\<close> at \<open>(x, x)\<close>, clipped when rounded to the disc
  of radius \<open>L / 2\<close> about \<open>(x + L / 2, x + L / 2)\<close>. In both paths every point of the
  logo's region is an interior point of the background, and the background has a point
  outside the logo's region. In the vector path the rounded background has the centre of
  the logo's clip; in the raster path its centre \<open>x - padding + radius\<close> is within
  \<open>1 / 10 ^ 10\<close> of it on each axis.
\<close>

theorem C4_background_contains_logo:
  fixes opts :: QROptions and url :: string and isDarkMode :: bool
    and L x pad W R h :: number and bgR bgV lg :: shape and bgEl lgEl :: svg_elem
  defines "L \<equiv> fdiv (fmul (qr_size opts) (logoSize opts)) 100"
  defines "x \<equiv> fdiv (fsub (qr_size opts) L) 2"
    and "pad \<equiv> fmul L (fl (1 / 10))"
    and "h \<equiv> fdiv L 2"
  defines "W \<equiv> fadd L (fmul pad 2)"
  defines "R \<equiv> fdiv W 2"
  defines "bgR \<equiv> (if logoShape opts = Rounded
                    then Disc (fadd (fsub x pad) R) (fadd (fsub x pad) R) R
                    else Box (fsub x pad) (fsub x pad) W W)"
    and "bgV \<equiv> (if logoShape opts = Rounded
                    then Disc (fadd x h) (fadd x h) R
                    else Box (fsub x pad) (fsub x pad) W W)"
    and "lg \<equiv> (if logoShape opts = Rounded
                   then Inter (Disc (fadd x h) (fadd x h) h) (Box x x L L) else Box x x L L)"
    and "bgEl \<equiv> (if logoShape opts = Rounded
                     then SvgCircle (fadd x h) (fadd x h) R (lightColor isDarkMode)
                     else SvgRect (fsub x pad) (fsub x pad) W W (lightColor isDarkMode))"
    and "lgEl \<equiv> (if logoShape opts = Rounded
                     then SvgClippedImage (fadd x h) (fadd x h) h x x L L url
                     else SvgImage x x L L url)"
  assumes range: "100 \<le> qr_size opts" "qr_size opts \<le> 400"
      "10 \<le> logoSize opts" "logoSize opts \<le> 30"
    and gen_ok: "\<not> blank (qr_text opts)" "canvasMounted env"
      "accepts (qrcode env) (qr_text opts) (errorCorrectionLevel opts)"
      "logoFile opts = Some f" "decode env f = Some img"
    and url_ok: "logoUrl denv f = Some url"
    and svg_ok: "svgOf (qrcode env) (qr_text opts) (qr_size opts) (errorCorrectionLevel opts)
           (darkColor isDarkMode) (lightColor isDarkMode) \<noteq> []"
  shows "(\<exists>ops. qrDataUrl (generateQRCode env opts isDarkMode st) = PngOf ops
            \<and> canvas_layers ctx0 ops
                = [(bgR, Colour (lightColor isDarkMode)), (lg, Picture img)])
       \<and> downloadQRCode denv opts isDarkMode timestamp Svg
            (generateQRCode env opts isDarkMode st)
          = Some (SvgDownload (baseFilename timestamp @ ''.svg'')
              (js_replace
                 (svgOf (qrcode env) (qr_text opts) (qr_size opts)
                    (errorCorrectionLevel opts) (darkColor isDarkMode)
                    (lightColor isDarkMode))
                 ''</svg>''
                 (renderElem (fmt denv) bgEl @ renderElem (fmt denv) lgEl @ ''</svg>'')))
       \<and> map svg_layer [bgEl, lgEl]
          = [(bgV, Colour (lightColor isDarkMode)), (lg, Href url)]
       \<and> (\<forall>q. inside lg q \<longrightarrow> interior bgR q)
       \<and> (\<forall>q. inside lg q \<longrightarrow> interior bgV q)
       \<and> (\<exists>q. inside bgR q \<and> \<not> inside lg q)
       \<and> (\<exists>q. inside bgV q \<and> \<not> inside lg q)
       \<and> \<bar>fadd (fsub x pad) R - fadd x h\<bar> \<le> 1 / 10 ^ 10"
proof -
  note gen = generate_with_logo[OF gen_ok, of isDarkMode st]
  have ne: "qrSvgString (generateQRCode env opts isDarkMode st) \<noteq> []"
    unfolding gen(2) by (rule svg_ok)
  note dl = download_svg_with_logo[OF ne gen_ok(4) url_ok, of isDarkMode timestamp]
  note defs = L_def x_def pad_def h_def W_def R_def
  have gx: "logo_x opts = x" "logo_y opts = x" "logoSizePixels opts = L" "logo_padding opts = pad"
      "svg_x opts = x" "svg_y opts = x" "svg_logoSize opts = L" "svg_padding opts = pad"
    by (simp_all only: geometry_defs defs)
  have be: "backgroundRect opts isDarkMode = bgEl"
    by (simp only: backgroundRect_def gx bgEl_def W_def[symmetric] R_def[symmetric] h_def[symmetric])
  have le: "logoElement opts url = lgEl"
    by (simp only: logoElement_def gx lgEl_def h_def[symmetric])
  have c1: "canvas_layers ctx0
       (DrawQR (qr_text opts) (qr_size opts) (errorCorrectionLevel opts)
          (darkColor isDarkMode) (lightColor isDarkMode) # drawLogo opts isDarkMode img)
       = [(bgR, Colour (lightColor isDarkMode)), (lg, Picture img)]"
    by (simp only: drawLogo_layers gx bgR_def lg_def W_def[symmetric] R_def[symmetric]
          h_def[symmetric])
  have A: "\<exists>ops. qrDataUrl (generateQRCode env opts isDarkMode st) = PngOf ops
            \<and> canvas_layers ctx0 ops
                = [(bgR, Colour (lightColor isDarkMode)), (lg, Picture img)]"
    unfolding gen(1) using c1 by blast
  have B: "downloadQRCode denv opts isDarkMode timestamp Svg
            (generateQRCode env opts isDarkMode st)
          = Some (SvgDownload (baseFilename timestamp @ ''.svg'')
              (js_replace
                 (svgOf (qrcode env) (qr_text opts) (qr_size opts)
                    (errorCorrectionLevel opts) (darkColor isDarkMode)
                    (lightColor isDarkMode))
                 ''</svg>''
                 (renderElem (fmt denv) bgEl @ renderElem (fmt denv) lgEl @ ''</svg>'')))"
    using dl unfolding gen(2) be le .
  have C: "map svg_layer [bgEl, lgEl]
          = [(bgV, Colour (lightColor isDarkMode)), (lg, Href url)]"
    by (simp add: bgEl_def lgEl_def bgV_def lg_def)
  from geometry_bounds[OF range]
  have gb: "0 < L" "0 \<le> h" "0 \<le> W" "h < R" "h + 2 * (1 / 10 ^ 10) < R"
      "\<bar>fadd x h - fadd (fsub x pad) R\<bar> \<le> 1 / 10 ^ 10"
      "fsub x pad < x" "x + L < fsub x pad + W"
    unfolding defs by blast+
  have D1: "interior bgR q" if "inside lg q" for q
  proof (cases "logoShape opts = Rounded")
    case True
    then show ?thesis using that rounded_contained[OF gb(2) gb(6) gb(5)]
      by (simp add: bgR_def lg_def del: inside.simps interior.simps)
  next
    case False
    then show ?thesis using that square_contained[OF gb(7) gb(8)]
      by (simp add: bgR_def lg_def del: inside.simps interior.simps)
  qed
  have D2: "interior bgV q" if "inside lg q" for q
  proof (cases "logoShape opts = Rounded")
    case True
    have z: "\<bar>fadd x h - fadd x h\<bar> \<le> 0" "h + 2 * 0 < R" using gb(4) by simp_all
    show ?thesis using True that rounded_contained[OF gb(2) z]
      by (simp add: bgV_def lg_def del: inside.simps interior.simps)
  next
    case False
    then show ?thesis using that square_contained[OF gb(7) gb(8)]
      by (simp add: bgV_def lg_def del: inside.simps interior.simps)
  qed
  have E1: "\<exists>q. inside bgR q \<and> \<not> inside lg q"
  proof (cases "logoShape opts = Rounded")
    case True
    have b: "inside bgR (fadd (fsub x pad) R + R, fadd (fsub x pad) R)"
        "\<not> interior bgR (fadd (fsub x pad) R + R, fadd (fsub x pad) R)"
      using True disc_boundary[of "fadd (fsub x pad) R" R] by (simp_all add: bgR_def del: inside.simps interior.simps)
    show ?thesis by (rule boundary_not_logo[OF D1 b])
  next
    case False
    have b: "inside bgR (fsub x pad, fsub x pad)" "\<not> interior bgR (fsub x pad, fsub x pad)"
      using False box_boundary[OF gb(3), of "fsub x pad"] by (simp_all add: bgR_def del: inside.simps interior.simps)
    show ?thesis by (rule boundary_not_logo[OF D1 b])
  qed
  have E2: "\<exists>q. inside bgV q \<and> \<not> inside lg q"
  proof (cases "logoShape opts = Rounded")
    case True
    have b: "inside bgV (fadd x h + R, fadd x h)" "\<not> interior bgV (fadd x h + R, fadd x h)"
      using True disc_boundary[of "fadd x h" R] by (simp_all add: bgV_def del: inside.simps interior.simps)
    show ?thesis by (rule boundary_not_logo[OF D2 b])
  next
    case False
    have b: "inside bgV (fsub x pad, fsub x pad)" "\<not> interior bgV (fsub x pad, fsub x pad)"
      using False box_boundary[OF gb(3), of "fsub x pad"] by (simp_all add: bgV_def del: inside.simps interior.simps)
    show ?thesis by (rule boundary_not_logo[OF D2 b])
  qed
  have F: "\<bar>fadd (fsub x pad) R - fadd x h\<bar> \<le> 1 / 10 ^ 10"
    using gb(6) by (simp only: abs_minus_commute)
  show ?thesis using A B C D1 D2 E1 E2 F by blast
qed

text \<open>The theorem at the sample request (size 300, 20 percent, rounded).\<close>

theorem C4_background_contains_logo_witness:
  \<open>100 \<le> qr_size opts0 \<and> qr_size opts0 \<le> 400 \<and> 10 \<le> logoSize opts0 \<and> logoSize opts0 \<le> 30
   \<and> \<not> blank (qr_text opts0) \<and> canvasMounted env0
   \<and> accepts (qrcode env0) (qr_text opts0) (errorCorrectionLevel opts0)
   \<and> logoFile opts0 = Some (Upload ''logo.png'')
   \<and> decode env0 (Upload ''logo.png'') = Some (Image (Upload ''logo.png''))
   \<and> logoUrl denv0 (Upload ''logo.png'') = Some ''data:image/png;base64,AAAA''
   \<and> svgOf (qrcode env0) (qr_text opts0) (qr_size opts0) (errorCorrectionLevel opts0)
        (darkColor False) (lightColor False) \<noteq> []
   \<and> (\<exists>ops. qrDataUrl (generateQRCode env0 opts0 False st0) = PngOf ops
          \<and> canvas_layers ctx0 ops
              = [(Disc 150 150 36, Colour ''#ffffff''),
                 (Inter (Disc 150 150 30) (Box 120 120 60 60), Picture (Image (Upload ''logo.png'')))])
   \<and> downloadQRCode denv0 opts0 False 1700 Svg (generateQRCode env0 opts0 False st0)
       = Some (SvgDownload ''qrbrandr-qr-code-1700.svg''
           (js_replace ''<svg></svg>'' ''</svg>''
              (''<circle cx="150" cy="150" r="36" fill="#ffffff"/>''
               @ ''<defs><clipPath id="logoClip"><circle cx="150" cy="150" r="30"/></clipPath></defs><image x="120" y="120" width="60" height="60" href="data:image/png;base64,AAAA" clip-path="url(#logoClip)"/>''
               @ ''</svg>'')))
   \<and> inside (Inter (Disc 150 150 30) (Box 120 120 60 60)) (150, 180)
   \<and> interior (Disc 150 150 36) (150, 180)\<close>
proof -
  have r: "100 \<le> qr_size opts0" "qr_size opts0 \<le> 400" "10 \<le> logoSize opts0"
      "logoSize opts0 \<le> 30"
    by (simp_all add: opts0_def)
  have v: "qr_size opts0 = 300" "logoSize opts0 = 20" "logoShape opts0 = Rounded"
      "qr_text opts0 = ''https://example.com''" "errorCorrectionLevel opts0 = EcH"
      "svgOf (qrcode env0) = (\<lambda>t w e d l. ''<svg></svg>'')"
    by (simp_all add: opts0_def env0_def)
  have ins: "inside (Inter (Disc 150 150 30) (Box 120 120 60 60)) (150, 180)" by simp
  from C4_background_contains_logo[OF r sample_request, where st = st0 and timestamp = 1700]
  have \<open>(\<exists>ops. qrDataUrl (generateQRCode env0 opts0 False st0) = PngOf ops
          \<and> canvas_layers ctx0 ops
              = [(Disc 150 150 36, Colour ''#ffffff''),
                 (Inter (Disc 150 150 30) (Box 120 120 60 60), Picture (Image (Upload ''logo.png'')))])
   \<and> downloadQRCode denv0 opts0 False 1700 Svg (generateQRCode env0 opts0 False st0)
       = Some (SvgDownload ''qrbrandr-qr-code-1700.svg''
           (js_replace ''<svg></svg>'' ''</svg>''
              (''<circle cx="150" cy="150" r="36" fill="#ffffff"/>''
               @ ''<defs><clipPath id="logoClip"><circle cx="150" cy="150" r="30"/></clipPath></defs><image x="120" y="120" width="60" height="60" href="data:image/png;base64,AAAA" clip-path="url(#logoClip)"/>''
               @ ''</svg>'')))
   \<and> (\<forall>q. inside (Inter (Disc 150 150 30) (Box 120 120 60 60)) q \<longrightarrow> interior (Disc 150 150 36) q)\<close>
    unfolding v samples0 sample_name
    by (simp add: sample_render lightColor_def del: inside.simps interior.simps renderElem.simps)
  then show ?thesis using r sample_request ins by blast
qed

section \<open>The logo percentage is used as given\<close>




section \<open>Delimited-text import\<close>

lemmas csv_eval = handleCSVUpload_def csvLines_def blank_def trim_def isWhiteSpace_def dataLines_def
    isHeader_def toLowerCase_def toLowerChar_def upperLetters_def lowerLetters_def newItems_def lineItem_def lineFields_def
    stripQuotes_def Let_def upt_rec

text \<open>A line always has a first field, so the payload of a line is well defined.\<close>

lemma split_on_nonempty: "split_on c s \<noteq> []"
  by (induction s) (auto split: list.splits)

lemma lineFields_nonempty: "lineFields line \<noteq> []"
  by (simp add: lineFields_def split_on_nonempty)

lemma js_includes_sublist: "js_includes s pat \<longleftrightarrow> sublist pat s"
  by (induction s) (auto simp: sublist_Cons_right)

text \<open>
  C7. Whatever the clock and the previous collection, importing the three-line sample text
  yields exactly the two items of its second and third lines (payload, file name), the first
  line being taken as a header. In general, with \<open>first\<close> the first non-blank line of the
  file, the imported items are those of the remaining lines when the lower-cased \<open>first\<close>
  contains \<open>text\<close> or \<open>url\<close> as a contiguous substring, and those of all lines otherwise.
\<close>

theorem C7_import:
  "handleCSVUpload now (Some ''text,filename\<newline>https://a.com,site-a\<newline>tel:+1,phone'') old
     = Inr [\<lparr>item_id = show_nat now, item_text = ''https://a.com'', filename = Some ''site-a''\<rparr>,
            \<lparr>item_id = show_nat (now + 1), item_text = ''tel:+1'', filename = Some ''phone''\<rparr>]
   \<and> (csvLines csv = first # rest \<longrightarrow>
        handleCSVUpload now (Some csv) old
          = Inr (newItems now
                   (if sublist ''text'' (toLowerCase first) \<or> sublist ''url'' (toLowerCase first)
                    then rest else first # rest)))"
proof
  show "handleCSVUpload now (Some ''text,filename\<newline>https://a.com,site-a\<newline>tel:+1,phone'') old
     = Inr [\<lparr>item_id = show_nat now, item_text = ''https://a.com'', filename = Some ''site-a''\<rparr>,
            \<lparr>item_id = show_nat (now + 1), item_text = ''tel:+1'', filename = Some ''phone''\<rparr>]"
    by (simp add: csv_eval)
next
  show "csvLines csv = first # rest \<longrightarrow>
        handleCSVUpload now (Some csv) old
          = Inr (newItems now
                   (if sublist ''text'' (toLowerCase first) \<or> sublist ''url'' (toLowerCase first)
                    then rest else first # rest))"
    by (simp add: handleCSVUpload_def dataLines_def isHeader_def js_includes_sublist)
qed

text \<open>The general part at a file whose header line contains \<open>URL\<close> in capitals.\<close>

theorem C7_import_witness:
  "csvLines ''Name,URL\<newline>x,y'' = [''Name,URL'', ''x,y'']
   \<and> handleCSVUpload 5 (Some ''Name,URL\<newline>x,y'') initialItems
       = Inr [\<lparr>item_id = ''5'', item_text = ''x'', filename = Some ''y''\<rparr>]"
proof -
  have h: "csvLines ''Name,URL\<newline>x,y'' = ''Name,URL'' # [''x,y'']"
    by (simp add: csvLines_def blank_def trim_def isWhiteSpace_def)
  have hdr: "sublist ''url'' (toLowerCase ''Name,URL'')"
    by (simp add: js_includes_sublist[symmetric] toLowerCase_def toLowerChar_def upperLetters_def lowerLetters_def)
  from C7_import[where now = 5 and old = initialItems and csv = "''Name,URL\<newline>x,y''"
      and first = "''Name,URL''" and rest = "[''x,y'']"] h hdr
  have "handleCSVUpload 5 (Some ''Name,URL\<newline>x,y'') initialItems = Inr (newItems 5 [''x,y''])"
    by simp
  then show ?thesis using h
    by (simp add: newItems_def lineItem_def lineFields_def stripQuotes_def trim_def isWhiteSpace_def
          Let_def show_nat.simps digit_def)
qed

text \<open>
  C10. The header test is substring containment: a file with no header whose first payload
  is an address that contains \<open>url\<close> loses that line (one item is imported, not two), with
  no error; the same file with an address that contains neither word keeps both lines.
\<close>

theorem C10_substring_header:
  "handleCSVUpload now (Some ''https://myurl.com/a,site-a\<newline>tel:+1,phone'') old
     = Inr [\<lparr>item_id = show_nat now, item_text = ''tel:+1'', filename = Some ''phone''\<rparr>]
   \<and> handleCSVUpload now (Some ''https://example.com/a,site-a\<newline>tel:+1,phone'') old
     = Inr [\<lparr>item_id = show_nat now, item_text = ''https://example.com/a'', filename = Some ''site-a''\<rparr>,
            \<lparr>item_id = show_nat (now + 1), item_text = ''tel:+1'', filename = Some ''phone''\<rparr>]"
  by (simp add: csv_eval)


lemma newItems_texts:
  "map item_text (newItems now ls) = filter (\<lambda>t. t \<noteq> []) (map (\<lambda>line. hd (lineFields line)) ls)"
proof -
  define ys where "ys = map (\<lambda>(index, line). lineItem now index line) (zip [0..<length ls] ls)"
  have a: "map item_text (filter (\<lambda>item. item_text item \<noteq> []) ys)
           = filter (\<lambda>t. t \<noteq> []) (map item_text ys)"
    by (induction ys) auto
  have b: "map item_text ys = map (\<lambda>line. hd (lineFields line)) ls"
    unfolding ys_def by (rule nth_equalityI) (simp_all add: lineItem_def Let_def)
  show ?thesis unfolding newItems_def ys_def[symmetric] a b ..
qed

text \<open>
  C9. A successful import replaces the whole collection: the new collection is exactly the
  items parsed from the file's data lines, it is the same whatever the collection held
  before (nothing of it is kept), and its payloads are, in file order, the non-empty first
  fields of the data lines.
\<close>

theorem C9_import_replaces:
  assumes "handleCSVUpload now (Some csv) old = Inr new"
  shows "new = newItems now (dataLines (csvLines csv))
       \<and> (\<forall>old'. handleCSVUpload now (Some csv) old' = Inr new)
       \<and> map item_text new
           = filter (\<lambda>t. t \<noteq> []) (map (\<lambda>line. hd (lineFields line)) (dataLines (csvLines csv)))"
proof -
  from assms have ne: "csvLines csv \<noteq> []" and new: "new = newItems now (dataLines (csvLines csv))"
    by (auto simp: handleCSVUpload_def split: if_splits)
  then show ?thesis by (simp add: handleCSVUpload_def newItems_texts)
qed

text \<open>The theorem at a one-line file, over the initial collection and over the empty one.\<close>

theorem C9_import_replaces_witness:
  "handleCSVUpload 7 (Some ''a,b'') initialItems
     = Inr [\<lparr>item_id = ''7'', item_text = ''a'', filename = Some ''b''\<rparr>]
   \<and> handleCSVUpload 7 (Some ''a,b'') []
     = Inr [\<lparr>item_id = ''7'', item_text = ''a'', filename = Some ''b''\<rparr>]"
proof -
  have h: "handleCSVUpload 7 (Some ''a,b'') initialItems
     = Inr [\<lparr>item_id = ''7'', item_text = ''a'', filename = Some ''b''\<rparr>]"
    by (simp add: csv_eval show_nat.simps digit_def)
  from C9_import_replaces[OF h] have "handleCSVUpload 7 (Some ''a,b'') []
     = Inr [\<lparr>item_id = ''7'', item_text = ''a'', filename = Some ''b''\<rparr>]" by blast
  with h show ?thesis by simp
qed

section \<open>Identifiers of the collection\<close>

lemma show_nat_snoc:
  "show_nat n = (if n < 10 then [] else show_nat (n div 10)) @ [digit (n mod 10)]"
  by (subst show_nat.simps) simp

lemma show_nat_nonempty: "show_nat n \<noteq> []"
  by (subst show_nat_snoc) simp

lemma digit_inj:
  assumes "a < 10" and "b < 10" and "digit a = digit b"
  shows "a = b"
proof -
  have d: "distinct ''0123456789''" by simp
  have l: "length ''0123456789'' = 10" by simp
  have "(''0123456789'' ! a = ''0123456789'' ! b) = (a = b)"
    by (rule nth_eq_iff_index_eq[OF d]) (simp_all only: l assms)
  then show ?thesis using assms(3) by (simp only: digit_def)
qed

lemma show_nat_inj: "show_nat n = show_nat m \<Longrightarrow> n = m"
proof (induction n arbitrary: m rule: show_nat.induct)
  case (1 n)
  let ?pn = "if n < 10 then [] else show_nat (n div 10)"
  let ?pm = "if m < 10 then [] else show_nat (m div 10)"
  have "?pn @ [digit (n mod 10)] = ?pm @ [digit (m mod 10)]"
    using "1.prems" show_nat_snoc[of n] show_nat_snoc[of m] by simp
  then have pre: "?pn = ?pm" and dig: "digit (n mod 10) = digit (m mod 10)" by simp_all
  have md: "n mod 10 = m mod 10" by (rule digit_inj[OF _ _ dig]) simp_all
  have dv: "n div 10 = m div 10"
  proof (cases "n < 10")
    case True
    then have "m < 10" using pre show_nat_nonempty[of "m div 10"] by (auto split: if_splits)
    then show ?thesis using True by simp
  next
    case False
    then have m10: "\<not> m < 10" using pre show_nat_nonempty[of "n div 10"] by (auto split: if_splits)
    then have "show_nat (n div 10) = show_nat (m div 10)" using pre False by simp
    then show ?thesis using "1.IH"[OF False] by simp
  qed
  show ?case using md dv by (metis div_mult_mod_eq)
qed

lemma newItems_ids_distinct: "distinct (map item_id (newItems now ls))"
proof -
  define ys where "ys = map (\<lambda>(index, line). lineItem now index line) (zip [0..<length ls] ls)"
  have "map item_id ys = map (\<lambda>index. show_nat (now + index)) [0..<length ls]"
    unfolding ys_def by (rule nth_equalityI) (simp_all add: lineItem_def Let_def)
  moreover have "distinct (map (\<lambda>index. show_nat (now + index)) [0..<length ls])"
    by (auto simp: distinct_map inj_on_def dest: show_nat_inj)
  ultimately have "distinct (map item_id ys)" by simp
  then have "distinct (map item_id (filter (\<lambda>item. item_text item \<noteq> []) ys))"
    by (rule distinct_map_filter)
  then show ?thesis by (simp add: newItems_def ys_def)
qed

lemma remove_keeps_distinct:
  "distinct (map item_id items) \<Longrightarrow> distinct (map item_id (removeBatchItem i items))"
  unfolding removeBatchItem_def by (rule distinct_map_filter)

lemma update_keeps_ids:
  "field \<noteq> KeyId \<Longrightarrow> map item_id (updateBatchItem i field v items) = map item_id items"
  by (cases field) (simp_all add: updateBatchItem_def setField_def)

lemma add_fresh_distinct:
  "distinct (map item_id items) \<Longrightarrow> show_nat now \<notin> set (map item_id items)
   \<Longrightarrow> distinct (map item_id (addBatchItem now items))"
  by (simp add: addBatchItem_def)

text \<open>An addition at a clock value that an earlier import has used repeats that id.\<close>

lemma import_then_add_collides:
  assumes "j < length ls" and "hd (lineFields (ls ! j)) \<noteq> []"
  shows "\<not> distinct (map item_id (addBatchItem (now + j) (newItems now ls)))"
proof -
  have "(j, ls ! j) \<in> set (zip [0..<length ls] ls)"
    unfolding set_zip using assms(1) by (intro CollectI exI[of _ j]) simp
  then have "lineItem now j (ls ! j)
      \<in> set (map (\<lambda>(index, line). lineItem now index line) (zip [0..<length ls] ls))"
    by force
  moreover have "item_text (lineItem now j (ls ! j)) \<noteq> []"
    using assms(2) by (simp add: lineItem_def Let_def)
  ultimately have "lineItem now j (ls ! j) \<in> set (newItems now ls)"
    by (simp add: newItems_def)
  then have "item_id (lineItem now j (ls ! j)) \<in> set (map item_id (newItems now ls))"
    unfolding set_map by (rule imageI)
  then have "show_nat (now + j) \<in> set (map item_id (newItems now ls))"
    by (simp add: lineItem_def Let_def)
  then show ?thesis by (simp add: addBatchItem_def)
qed

text \<open>
  C8 (ids stay pairwise distinct under every operation) does not hold for adding an item:
  the new id is the decimal clock value and nothing compares it with the ids present. An
  import at clock value 1700000000000 of three lines yields the ids 1700000000000 to
  1700000000002 (the clock plus the line index); an item added at clock value 1700000000002
  receives an id that is already present (in general, so does an addition at the import's
  clock value plus the index of any imported line). Two additions at one clock value
  collide as well.
  The lemmas above show what does hold: an import yields distinct ids, removal and the
  update of the payload or file name keep the ids, and an addition keeps them distinct when
  the decimal clock value is not among them.
\<close>

theorem C8_ids_collide:
  "handleCSVUpload 1700000000000 (Some ''a\<newline>b\<newline>c'') initialItems
     = Inr [\<lparr>item_id = ''1700000000000'', item_text = ''a'', filename = Some ''qr-code-1''\<rparr>,
            \<lparr>item_id = ''1700000000001'', item_text = ''b'', filename = Some ''qr-code-2''\<rparr>,
            \<lparr>item_id = ''1700000000002'', item_text = ''c'', filename = Some ''qr-code-3''\<rparr>]
   \<and> map item_id (addBatchItem 1700000000002
          [\<lparr>item_id = ''1700000000000'', item_text = ''a'', filename = Some ''qr-code-1''\<rparr>,
           \<lparr>item_id = ''1700000000001'', item_text = ''b'', filename = Some ''qr-code-2''\<rparr>,
           \<lparr>item_id = ''1700000000002'', item_text = ''c'', filename = Some ''qr-code-3''\<rparr>])
       = [''1700000000000'', ''1700000000001'', ''1700000000002'', ''1700000000002'']
   \<and> \<not> distinct (map item_id (addBatchItem 1700000000002
          [\<lparr>item_id = ''1700000000000'', item_text = ''a'', filename = Some ''qr-code-1''\<rparr>,
           \<lparr>item_id = ''1700000000001'', item_text = ''b'', filename = Some ''qr-code-2''\<rparr>,
           \<lparr>item_id = ''1700000000002'', item_text = ''c'', filename = Some ''qr-code-3''\<rparr>]))
   \<and> \<not> distinct (map item_id (addBatchItem now (addBatchItem now items)))"
proof -
  have n0: "show_nat 1700000000000 = ''1700000000000''"
    and n1: "show_nat 1700000000001 = ''1700000000001''"
    and n2: "show_nat 1700000000002 = ''1700000000002''"
    by (simp_all add: show_nat.simps digit_def)
  have s: "show_nat (Suc 0) = ''1''" "show_nat (Suc (Suc 0)) = ''2''"
    "show_nat (Suc (Suc (Suc 0))) = ''3''"
    by (simp_all add: show_nat.simps digit_def)
  have "handleCSVUpload 1700000000000 (Some ''a\<newline>b\<newline>c'') initialItems
     = Inr [\<lparr>item_id = ''1700000000000'', item_text = ''a'', filename = Some ''qr-code-1''\<rparr>,
            \<lparr>item_id = ''1700000000001'', item_text = ''b'', filename = Some ''qr-code-2''\<rparr>,
            \<lparr>item_id = ''1700000000002'', item_text = ''c'', filename = Some ''qr-code-3''\<rparr>]"
    by (simp add: csv_eval n0 n1 n2 s)
  then show ?thesis by (simp add: addBatchItem_def n2)
qed

section \<open>Grid pagination\<close>

lemma placement: "pageIndex i = i div 6 \<and> col i = i mod 2 \<and> row i = (i mod 6) div 2"
  by (simp add: pageIndex_def col_def row_def cellIndex_def cols_def rows_def mod_mod_cancel)

lemma gridLoop_snoc:
  "gridLoop env d i cur doc (xs @ [x]) =
     (case gridLoop env d i cur doc xs of
        None \<Rightarrow> None
      | Some (cur', doc') \<Rightarrow> gridLoop env d (i + length xs) cur' doc' [x])"
proof (induction xs arbitrary: i cur doc)
  case Nil
  show ?case by simp
next
  case (Cons a xs)
  have len: "i + length (a # xs) = Suc i + length xs" by simp
  show ?case
  proof (cases "generateQRCodeDataURL env d (item_text a)")
    case None
    then show ?thesis by (simp add: Let_def)
  next
    case (Some u)
    show ?thesis unfolding len using Some Cons.IH by (simp add: Let_def)
  qed
qed

lemma div6_step:
  fixes n :: nat
  assumes "0 < n"
  shows "n mod 6 = 0 \<Longrightarrow> n div 6 = (n - 1) div 6 + 1"
    and "n mod 6 \<noteq> 0 \<Longrightarrow> n div 6 = (n - 1) div 6"
proof -
  obtain q r where q: "q = n div 6" and r: "r = n mod 6" by simp
  have n: "n = 6 * q + r" and r6: "r < 6" by (simp_all add: q r)
  {
    assume "n mod 6 = 0"
    then have r0: "r = 0" by (simp add: r)
    then obtain q' where q': "q = Suc q'" using n assms by (cases q) simp_all
    have "(n - 1) div 6 = q'"
    proof (rule div_nat_eqI)
      show "6 * q' \<le> n - 1" by (simp add: n r0 q')
      show "n - 1 < 6 * Suc q'" by (simp add: n r0 q')
    qed
    then show "n div 6 = (n - 1) div 6 + 1" using q q' by simp
  }
  {
    assume "n mod 6 \<noteq> 0"
    then have r0: "0 < r" by (simp add: r)
    have "(n - 1) div 6 = q"
    proof (rule div_nat_eqI)
      show "6 * q \<le> n - 1" using r0 by (simp add: n)
      show "n - 1 < 6 * Suc q" using r6 r0 by (simp add: n)
    qed
    then show "n div 6 = (n - 1) div 6" using q by simp
  }
qed

lemma gridPage_cong:
  assumes "\<And>j. j < n \<Longrightarrow> f j = g j"
  shows "gridPage f n k = gridPage g n k"
proof -
  have "map f [6 * k ..< min n (6 * k + 6)] = map g [6 * k ..< min n (6 * k + 6)]"
    using assms by (intro map_cong) auto
  then show ?thesis unfolding gridPage_def by (rule arg_cong)
qed

lemma gridPage_full:
  assumes "6 * k + 6 \<le> n"
  shows "gridPage f (Suc n) k = gridPage f n k"
proof -
  have "min (Suc n) (6 * k + 6) = min n (6 * k + 6)" using assms by simp
  then show ?thesis by (simp only: gridPage_def)
qed

lemma gridPage_grow:
  assumes "6 * k \<le> n" and "n < 6 * k + 6"
  shows "gridPage f (Suc n) k = gridPage f n k @ f n"
proof -
  have a: "min (Suc n) (6 * k + 6) = Suc n" and b: "min n (6 * k + 6) = n"
    using assms by simp_all
  have "[6 * k ..< Suc n] = [6 * k ..< n] @ [n]" using assms(1) by simp
  then show ?thesis by (simp only: gridPage_def a b map_append concat_append) simp
qed

lemma gridPage_empty: "gridPage f (6 * k) k = []"
  by (simp add: gridPage_def)


lemma gridLoop_single:
  assumes "accepts (encoder env) (item_text x) EcH"
  shows "gridLoop env d n cur doc [x] =
           Some (if pageIndex n > cur then pageIndex n else cur,
                 draw (cellOps env n x (qrPng d (item_text x)))
                   (if pageIndex n > cur then addPage doc else doc))"
  using assms by (simp add: generateQRCodeDataURL_def Let_def)

lemma grid_invariant:
  assumes "\<forall>item \<in> set items. accepts (encoder env) (item_text item) EcH"
  shows "\<exists>doc. gridLoop env d 0 0 newPdf items = Some ((length items - 1) div 6, doc)
           \<and> length (fst doc) = (length items - 1) div 6
           \<and> (\<forall>k < (length items - 1) div 6.
                 fst doc ! k = gridPage (gridCell env d items) (length items) k)
           \<and> snd doc = gridPage (gridCell env d items) (length items) ((length items - 1) div 6)"
  using assms
proof (induction items rule: rev_induct)
  case Nil
  show ?case by (simp add: newPdf_def gridPage_def)
next
  case (snoc x xs)
  define n where "n = length xs"
  define cur where "cur = (n - 1) div 6"
  define f where "f = gridCell env d xs"
  define f' where "f' = gridCell env d (xs @ [x])"
  from snoc obtain doc where
    run: "gridLoop env d 0 0 newPdf xs = Some (cur, doc)"
    and len: "length (fst doc) = cur"
    and fin: "\<And>k. k < cur \<Longrightarrow> fst doc ! k = gridPage f n k"
    and current: "snd doc = gridPage f n cur"
    unfolding n_def cur_def f_def by auto
  have acc: "accepts (encoder env) (item_text x) EcH" using snoc.prems by simp
  have ff: "\<And>j. j < n \<Longrightarrow> f j = f' j"
    by (simp add: f_def f'_def gridCell_def n_def nth_append)
  have cell: "cellOps env n x (qrPng d (item_text x)) = f' n"
    by (simp add: f'_def gridCell_def n_def)
  have step: "gridLoop env d 0 0 newPdf (xs @ [x]) =
           Some (if pageIndex n > cur then pageIndex n else cur,
                 draw (f' n) (if pageIndex n > cur then addPage doc else doc))"
    using run gridLoop_single[OF acc, of d n cur doc] cell
    by (simp add: gridLoop_snoc n_def)
  have pi: "pageIndex n = n div 6" by (simp add: pageIndex_def cols_def rows_def)
  have nn: "length (xs @ [x]) = Suc n" "(Suc n - 1) div 6 = n div 6" by (simp_all add: n_def)
  have bounds: "6 * (n div 6) \<le> n" "n < 6 * (n div 6) + 6"
    using dividend_less_times_div[of 6 n] by (simp_all add: add.commute)
  consider (zero) "n = 0" | (turn) "0 < n" "n mod 6 = 0" | (stay) "0 < n" "n mod 6 \<noteq> 0" by auto
  then show ?case
  proof cases
    case zero
    then have c0: "cur = 0" by (simp add: cur_def)
    have d0: "doc = newPdf" using run zero by (simp add: n_def)
    have "draw (f' 0) newPdf = ([], gridPage f' (Suc 0) 0)"
      using gridPage_grow[of 0 0 f'] by (simp add: draw_def newPdf_def gridPage_def)
    then show ?thesis
      unfolding nn f'_def[symmetric] using step zero c0 d0 pi by (simp add: pageIndex_def)
  next
    case turn
    have up: "n div 6 = cur + 1" using div6_step(1)[OF turn] by (simp add: cur_def)
    have n6: "n = 6 * (cur + 1)" using turn(2) up by (metis mult.commute div_mult_mod_eq add.right_neutral)
    have res: "gridLoop env d 0 0 newPdf (xs @ [x]) = Some (n div 6, (fst doc @ [snd doc], f' n))"
      using step up pi by (simp add: addPage_def draw_def)
    have l: "length (fst doc @ [snd doc]) = n div 6" using len up by simp
    have pgs: "(fst doc @ [snd doc]) ! k = gridPage f' (Suc n) k" if "k < n div 6" for k
    proof -
      have kk: "6 * k + 6 \<le> n" using that up n6 by simp
      have "(fst doc @ [snd doc]) ! k = gridPage f n k"
      proof (cases "k < cur")
        case True
        then show ?thesis using fin[OF True] len by (simp add: nth_append)
      next
        case False
        then have "k = cur" using that up by simp
        then show ?thesis using current len by (simp add: nth_append)
      qed
      also have "\<dots> = gridPage f' n k" by (rule gridPage_cong) (rule ff)
      also have "\<dots> = gridPage f' (Suc n) k" using gridPage_full[OF kk] by simp
      finally show ?thesis .
    qed
    have cu: "f' n = gridPage f' (Suc n) (n div 6)"
      using gridPage_grow[of "cur + 1" n f'] gridPage_empty[of f' "cur + 1"] n6 up by simp
    show ?thesis
      unfolding nn f'_def[symmetric] using res l pgs cu by auto
  next
    case stay
    have same: "n div 6 = cur" using div6_step(2)[OF stay] by (simp add: cur_def)
    have res: "gridLoop env d 0 0 newPdf (xs @ [x]) = Some (n div 6, (fst doc, snd doc @ f' n))"
      using step same pi by (simp add: draw_def)
    have pgs: "fst doc ! k = gridPage f' (Suc n) k" if "k < n div 6" for k
    proof -
      have kk: "6 * k + 6 \<le> n" using that bounds(1) by linarith
      have "fst doc ! k = gridPage f n k" using fin that same by simp
      also have "\<dots> = gridPage f' n k" by (rule gridPage_cong) (rule ff)
      also have "\<dots> = gridPage f' (Suc n) k" using gridPage_full[OF kk] by simp
      finally show ?thesis .
    qed
    have "gridPage f n cur = gridPage f' n cur" by (rule gridPage_cong) (rule ff)
    then have cu: "snd doc @ f' n = gridPage f' (Suc n) (n div 6)"
      using gridPage_grow[of "n div 6" n f'] bounds current same by simp
    show ?thesis
      unfolding nn f'_def[symmetric] using res len same pgs cu by auto
  qed
qed


lemma upt_split3:
  assumes "a \<le> i" and "i < b"
  shows "[a..<b] = [a..<i] @ i # [Suc i..<b]"
proof -
  have "[a..<i + (b - i)] = [a..<i] @ [i..<i + (b - i)]" using assms(1) by (rule upt_add_eq_append)
  moreover have "i + (b - i) = b" using assms(2) by simp
  ultimately have "[a..<b] = [a..<i] @ [i..<b]" by simp
  then show ?thesis using upt_conv_Cons[OF assms(2)] by simp
qed

lemma gridPage_has_cell:
  assumes "i < n"
  shows "\<exists>pre post. gridPage f n (i div 6) = pre @ f i @ post"
proof -
  have lo: "6 * (i div 6) \<le> i" by simp
  have hi: "i < min n (6 * (i div 6) + 6)"
    using assms dividend_less_times_div[of 6 i] by (simp add: add.commute)
  have "gridPage f n (i div 6)
        = concat (map f [6 * (i div 6) ..< i]) @ f i
            @ concat (map f [Suc i ..< min n (6 * (i div 6) + 6)])"
    unfolding gridPage_def upt_split3[OF lo hi] by simp
  then show ?thesis by blast
qed

lemma pages_draw:
  "pages (draw c (addPage doc)) = pages doc @ [c]"
  "pages (draw c doc) = butlast (pages doc) @ [last (pages doc) @ c]"
  by (simp_all add: pages_def draw_def addPage_def butlast_append)

lemma turn_iff: "pageIndex i > (i - 1) div 6 \<longleftrightarrow> 0 < i \<and> i mod 6 = 0"
proof (cases "i = 0")
  case True
  then show ?thesis by (simp add: pageIndex_def cols_def rows_def)
next
  case False
  then have pos: "0 < i" by simp
  show ?thesis
  proof (cases "i mod 6 = 0")
    case True
    then show ?thesis using div6_step(1)[OF pos True] pos by (simp add: pageIndex_def cols_def rows_def)
  next
    case False
    then show ?thesis using div6_step(2)[OF pos False] pos by (simp add: pageIndex_def cols_def rows_def)
  qed
qed

lemma filter_nonempty:
  assumes "filter P xs \<noteq> []"
  shows "xs \<noteq> [] \<and> \<not> list_all (\<lambda>x. \<not> P x) xs"
  using assms by (induction xs) (auto split: if_splits)

text \<open>
  C3. Let the valid items (the filtered collection, in collection order) all be accepted by
  the encoder. Index \<open>i\<close> is placed at page \<open>i div 6\<close>, column \<open>i mod 2\<close> and row
  \<open>(i mod 6) div 2\<close>, and its image is drawn at the cell of that column and row. The loop
  returns a document of \<open>(n - 1) div 6 + 1\<close> pages (one page when there is no item) whose
  page \<open>k\<close> holds exactly the cells of the indices \<open>6 * k\<close> up to \<open>6 * k + 5\<close> (below
  \<open>n\<close>) in order, so the cell of index \<open>i\<close> is on page \<open>i div 6\<close>; with 13 items there
  are exactly 3 pages and the third holds exactly the cell of index 12; and that document is
  the one the grid export saves. The iteration for index \<open>i\<close>, started from the state the
  first \<open>i\<close> items lead to, appends a new page exactly when \<open>i\<close> is a positive multiple
  of 6, and otherwise draws on the last page.
\<close>

theorem C3_grid_pagination:
  assumes "\<forall>item \<in> set validItems. accepts (encoder env) (item_text item) EcH"
  shows "pageIndex i = i div 6 \<and> col i = i mod 2 \<and> row i = (i mod 6) div 2
     \<and> hd (gridCell env isDarkMode validItems i)
         = AddImage (qrPng isDarkMode (item_text (validItems ! i)))
             (fadd (fadd margin (fmul (of_nat (i mod 2)) (cellWidth env)))
                (fdiv (fsub (cellWidth env) (qrSizeMM env)) 2))
             (fadd (fadd margin (fmul (of_nat ((i mod 6) div 2)) (cellHeight env))) 10)
             (qrSizeMM env) (qrSizeMM env)
     \<and> (\<exists>currentPage doc.
           gridLoop env isDarkMode 0 0 newPdf validItems = Some (currentPage, doc)
         \<and> length (pages doc) = (length validItems - 1) div 6 + 1
         \<and> (\<forall>k < length (pages doc).
               pages doc ! k = gridPage (gridCell env isDarkMode validItems) (length validItems) k)
         \<and> (i < length validItems \<longrightarrow>
               (\<exists>pre post. pages doc ! (i div 6) = pre @ gridCell env isDarkMode validItems i @ post))
         \<and> (length validItems = 13 \<longrightarrow>
               length (pages doc) = 3 \<and> pages doc ! 2 = gridCell env isDarkMode validItems 12)
         \<and> (validItems = filter (\<lambda>item. \<not> blank (item_text item)) batchItems \<and> validItems \<noteq> [] \<longrightarrow>
               downloadBatch env isDarkMode now PdfGrid batchItems
                 = ([PdfFile (''qrbrandr-grid-'' @ show_nat now @ ''.pdf'') (pages doc)], [])))
     \<and> (\<forall>cur doc. i < length validItems
            \<and> gridLoop env isDarkMode 0 0 newPdf (take i validItems) = Some (cur, doc)
          \<longrightarrow> (\<exists>cur' doc'.
                 gridLoop env isDarkMode i cur doc [validItems ! i] = Some (cur', doc')
               \<and> pages doc' =
                   (if 0 < i \<and> i mod 6 = 0
                    then pages doc @ [gridCell env isDarkMode validItems i]
                    else butlast (pages doc) @ [last (pages doc) @ gridCell env isDarkMode validItems i])))"
proof -
  let ?n = "length validItems"
  let ?f = "gridCell env isDarkMode validItems"
  have p1: "pageIndex i = i div 6 \<and> col i = i mod 2 \<and> row i = (i mod 6) div 2"
    by (rule placement)
  have p2: "hd (gridCell env isDarkMode validItems i)
         = AddImage (qrPng isDarkMode (item_text (validItems ! i)))
             (fadd (fadd margin (fmul (of_nat (i mod 2)) (cellWidth env)))
                (fdiv (fsub (cellWidth env) (qrSizeMM env)) 2))
             (fadd (fadd margin (fmul (of_nat ((i mod 6) div 2)) (cellHeight env))) 10)
             (qrSizeMM env) (qrSizeMM env)"
    using p1 by (simp add: gridCell_def cellOps_def Let_def)
  from grid_invariant[OF assms, of isDarkMode] obtain doc where
    run: "gridLoop env isDarkMode 0 0 newPdf validItems = Some ((?n - 1) div 6, doc)"
    and len: "length (fst doc) = (?n - 1) div 6"
    and fin: "\<And>k. k < (?n - 1) div 6 \<Longrightarrow> fst doc ! k = gridPage ?f ?n k"
    and current: "snd doc = gridPage ?f ?n ((?n - 1) div 6)"
    by auto
  have q1: "length (pages doc) = (?n - 1) div 6 + 1" using len by (simp add: pages_def)
  have q2': "pages doc ! k = gridPage ?f ?n k" if "k < length (pages doc)" for k
  proof (cases "k < (?n - 1) div 6")
    case True
    then show ?thesis using fin[OF True] len by (simp add: pages_def nth_append)
  next
    case False
    then have "k = (?n - 1) div 6" using that q1 by simp
    then show ?thesis using current len by (simp add: pages_def nth_append)
  qed
  then have q2: "\<forall>k < length (pages doc). pages doc ! k = gridPage ?f ?n k" by blast
  have q3: "i < ?n \<longrightarrow> (\<exists>pre post. pages doc ! (i div 6) = pre @ ?f i @ post)"
  proof
    assume lt: "i < ?n"
    have "i div 6 \<le> (?n - 1) div 6" using lt by (intro div_le_mono) simp
    then have "i div 6 < length (pages doc)" using q1 by simp
    then have "pages doc ! (i div 6) = gridPage ?f ?n (i div 6)" by (rule q2')
    then show "\<exists>pre post. pages doc ! (i div 6) = pre @ ?f i @ post"
      using gridPage_has_cell[OF lt, of ?f] by simp
  qed
  have q4: "?n = 13 \<longrightarrow> length (pages doc) = 3 \<and> pages doc ! 2 = ?f 12"
  proof
    assume n13: "?n = 13"
    have l3: "length (pages doc) = 3" using q1 n13 by simp
    then have "pages doc ! 2 = gridPage ?f 13 2" using q2'[of 2] n13 by simp
    also have "\<dots> = ?f 12" by (simp add: gridPage_def)
    finally show "length (pages doc) = 3 \<and> pages doc ! 2 = ?f 12" using l3 by simp
  qed
  have q5: "validItems = filter (\<lambda>item. \<not> blank (item_text item)) batchItems \<and> validItems \<noteq> [] \<longrightarrow>
               downloadBatch env isDarkMode now PdfGrid batchItems
                 = ([PdfFile (''qrbrandr-grid-'' @ show_nat now @ ''.pdf'') (pages doc)], [])"
  proof
    assume v: "validItems = filter (\<lambda>item. \<not> blank (item_text item)) batchItems \<and> validItems \<noteq> []"
    then have "filter (\<lambda>item. \<not> blank (item_text item)) batchItems \<noteq> []" by blast
    then have "batchItems \<noteq> [] \<and> \<not> list_all (\<lambda>item. \<not> \<not> blank (item_text item)) batchItems"
      by (rule filter_nonempty)
    moreover have "gridLoop env isDarkMode 0 0 newPdf (filter (\<lambda>item. \<not> blank (item_text item)) batchItems)
        = Some ((?n - 1) div 6, doc)" using run v by simp
    ultimately show "downloadBatch env isDarkMode now PdfGrid batchItems
                 = ([PdfFile (''qrbrandr-grid-'' @ show_nat now @ ''.pdf'') (pages doc)], [])"
      by (simp add: downloadBatch_def Let_def)
  qed
  have E: "\<exists>currentPage doc.
           gridLoop env isDarkMode 0 0 newPdf validItems = Some (currentPage, doc)
         \<and> length (pages doc) = (length validItems - 1) div 6 + 1
         \<and> (\<forall>k < length (pages doc).
               pages doc ! k = gridPage (gridCell env isDarkMode validItems) (length validItems) k)
         \<and> (i < length validItems \<longrightarrow>
               (\<exists>pre post. pages doc ! (i div 6) = pre @ gridCell env isDarkMode validItems i @ post))
         \<and> (length validItems = 13 \<longrightarrow>
               length (pages doc) = 3 \<and> pages doc ! 2 = gridCell env isDarkMode validItems 12)
         \<and> (validItems = filter (\<lambda>item. \<not> blank (item_text item)) batchItems \<and> validItems \<noteq> [] \<longrightarrow>
               downloadBatch env isDarkMode now PdfGrid batchItems
                 = ([PdfFile (''qrbrandr-grid-'' @ show_nat now @ ''.pdf'') (pages doc)], []))"
    using run q1 q2 q3 q4 q5 by (intro exI[of _ "(?n - 1) div 6"] exI[of _ doc] conjI) assumption+
  have step: "\<exists>cur' doc'.
                 gridLoop env isDarkMode i cur d0 [validItems ! i] = Some (cur', doc')
               \<and> pages doc' =
                   (if 0 < i \<and> i mod 6 = 0
                    then pages d0 @ [?f i]
                    else butlast (pages d0) @ [last (pages d0) @ ?f i])"
    if "i < ?n \<and> gridLoop env isDarkMode 0 0 newPdf (take i validItems) = Some (cur, d0)" for cur d0
  proof -
    have acc: "\<forall>item \<in> set (take i validItems). accepts (encoder env) (item_text item) EcH"
      using assms by (meson in_set_takeD)
    have li: "length (take i validItems) = i" using that by simp
    from grid_invariant[OF acc, of isDarkMode] that have cur: "cur = (i - 1) div 6"
      unfolding li by auto
    have ai: "accepts (encoder env) (item_text (validItems ! i)) EcH"
      using assms that by simp
    have cell: "cellOps env i (validItems ! i) (qrPng isDarkMode (item_text (validItems ! i))) = ?f i"
      by (simp add: gridCell_def)
    define b where "b \<longleftrightarrow> 0 < i \<and> i mod 6 = 0"
    have tb: "pageIndex i > cur \<longleftrightarrow> b" unfolding cur b_def by (rule turn_iff)
    have res: "gridLoop env isDarkMode i cur d0 [validItems ! i]
        = Some (if b then pageIndex i else cur, draw (?f i) (if b then addPage d0 else d0))"
      unfolding gridLoop_single[OF ai] cell tb ..
    have pg: "pages (draw (?f i) (if b then addPage d0 else d0))
        = (if b then pages d0 @ [?f i] else butlast (pages d0) @ [last (pages d0) @ ?f i])"
    proof (cases b)
      case True
      then show ?thesis by (simp only: if_True pages_draw(1))
    next
      case False
      then show ?thesis by (simp only: if_False pages_draw(2))
    qed
    show ?thesis unfolding b_def[symmetric] res using pg by (intro exI conjI) (rule refl)
  qed
  show ?thesis
    using p1 p2 E step by (intro conjI allI impI) (assumption | blast)+
qed


text \<open>The theorem at the thirteen sample items: three pages, the third with the cell of index 12 alone.\<close>

theorem C3_grid_pagination_witness:
  "list_all (\<lambda>item. accepts (encoder benv0) (item_text item) EcH) items13
   \<and> length items13 = 13
   \<and> (\<exists>currentPage doc.
         gridLoop benv0 False 0 0 newPdf items13 = Some (currentPage, doc)
       \<and> length (pages doc) = 3
       \<and> pages doc ! 2 = gridCell benv0 False items13 12)"
proof -
  have acc: "\<forall>item \<in> set items13. accepts (encoder benv0) (item_text item) EcH"
    by (simp add: benv0_def)
  have len: "length items13 = 13" by (simp add: items13_def)
  from C3_grid_pagination[OF acc, of 12 False] obtain currentPage doc where
    "gridLoop benv0 False 0 0 newPdf items13 = Some (currentPage, doc)"
    "length items13 = 13 \<longrightarrow> length (pages doc) = 3 \<and> pages doc ! 2 = gridCell benv0 False items13 12"
    by blast
  then have "\<exists>currentPage doc.
         gridLoop benv0 False 0 0 newPdf items13 = Some (currentPage, doc)
       \<and> length (pages doc) = 3
       \<and> pages doc ! 2 = gridCell benv0 False items13 12" using len by blast
  then show ?thesis using acc len by (simp add: list_all_iff)
qed
section \<open>Insertion into the vector document\<close>

lemma getSubstitution_plain:
  "CHR ''$'' \<notin> set r \<Longrightarrow> getSubstitution m b a r = r"
  by (induction m b a r rule: getSubstitution.induct) auto

lemma indexOf_Some:
  "indexOf s pat = Some i \<Longrightarrow> s = take i s @ pat @ drop (i + length pat) s"
proof (induction s arbitrary: i)
  case Nil
  then show ?case by (simp split: if_splits)
next
  case (Cons c cs)
  show ?case
  proof (cases "prefix pat (c # cs)")
    case True
    then have "i = 0" using Cons.prems by simp
    then show ?thesis using True by (auto simp: prefix_def)
  next
    case False
    then obtain j where j: "indexOf cs pat = Some j" "i = Suc j" using Cons.prems by auto
    then show ?thesis using Cons.IH[OF j(1)] by simp
  qed
qed

lemma indexOf_None: "indexOf s pat = None \<Longrightarrow> \<not> sublist pat s"
  by (induction s) (auto simp: sublist_Cons_right split: if_splits)

lemma occurrences_unique:
  assumes "filter (\<lambda>i. prefix pat (drop i s)) [0..<Suc (length s)] = [k]"
    and "s = a @ pat @ b"
  shows "length a = k"
proof -
  have "length a \<in> set (filter (\<lambda>i. prefix pat (drop i s)) [0..<Suc (length s)])"
    using assms(2) by simp
  then show ?thesis unfolding assms(1) by simp
qed

lemma renderElem_no_dollar:
  assumes "\<forall>q. CHR ''$'' \<notin> set (fm q)" and "CHR ''$'' \<notin> set url"
  shows "CHR ''$'' \<notin> set (renderElem fm (backgroundRect opts d))"
    and "CHR ''$'' \<notin> set (renderElem fm (logoElement opts url))"
  using assms by (simp_all add: backgroundRect_def logoElement_def attr_def lightColor_def)

text \<open>
  C5. Let the stored vector document be \<open>base\<close> followed by the closing tag, with no
  other occurrence of the closing tag (every way to split the document around a closing tag
  has \<open>base\<close> before it). With a logo whose encoding is available, the vector export
  saves \<open>base\<close>, then the background element, then the logo element, then the closing
  tag: the new elements stand immediately before the closing tag and \<open>base\<close> is
  unchanged. The number formatting and the logo's encoded address contain no dollar sign
  (the one character the replacement would expand).
\<close>

theorem C5_insert_before_closing_tag:
  assumes "qrSvgString st = base @ ''</svg>''"
    and "\<forall>a b. base @ ''</svg>'' = a @ ''</svg>'' @ b \<longrightarrow> a = base"
    and "logoFile opts = Some f" and "logoUrl env f = Some logoDataUrl"
    and "\<forall>q. CHR ''$'' \<notin> set (fmt env q)" and "CHR ''$'' \<notin> set logoDataUrl"
  shows "downloadQRCode env opts isDarkMode timestamp Svg st
           = Some (SvgDownload (baseFilename timestamp @ ''.svg'')
               (base @ renderElem (fmt env) (backgroundRect opts isDarkMode)
                     @ renderElem (fmt env) (logoElement opts logoDataUrl) @ ''</svg>''))"
proof -
  let ?s = "base @ ''</svg>''"
  let ?r = "renderElem (fmt env) (backgroundRect opts isDarkMode)
            @ renderElem (fmt env) (logoElement opts logoDataUrl) @ ''</svg>''"
  have "sublist ''</svg>'' ?s" by (metis sublist_appendI append_Nil2)
  then obtain i where i: "indexOf ?s ''</svg>'' = Some i"
    using indexOf_None[of ?s "''</svg>''"] by (cases "indexOf ?s ''</svg>''") auto
  from indexOf_Some[OF i] have split: "?s = take i ?s @ ''</svg>'' @ drop (i + length ''</svg>'') ?s" .
  then have t: "take i ?s = base" using assms(2) by blast
  then have "?s = base @ ''</svg>'' @ drop (i + length ''</svg>'') ?s" using split by simp
  then have d: "drop (i + length ''</svg>'') ?s = []" by simp
  have nd: "CHR ''$'' \<notin> set ?r"
    using renderElem_no_dollar[OF assms(5,6)] by simp
  have "js_replace ?s ''</svg>'' ?r = base @ ?r"
    unfolding js_replace_def i option.case t d getSubstitution_plain[OF nd] by simp
  then show ?thesis using assms(1,3,4) by (simp add: downloadQRCode_def)
qed


lemma only_final_occurrence:
  assumes "filter (\<lambda>i. prefix pat (drop i (base @ pat))) [0..<Suc (length (base @ pat))] = [length base]"
  shows "\<forall>a b. base @ pat = a @ pat @ b \<longrightarrow> a = base"
proof (intro allI impI)
  fix a b
  assume eq: "base @ pat = a @ pat @ b"
  have "length a = length base" by (rule occurrences_unique[OF assms eq])
  then show "a = base" using eq by simp
qed

text \<open>The theorem at the sample request (size 300, 20 percent, rounded) and a small document.\<close>

theorem C5_insert_before_closing_tag_witness:
  \<open>qrSvgString stSvg = ''<svg><path/>'' @ ''</svg>''
   \<and> filter (\<lambda>i. prefix ''</svg>'' (drop i (''<svg><path/>'' @ ''</svg>'')))
        [0..<Suc (length (''<svg><path/>'' @ ''</svg>''))] = [length ''<svg><path/>'']
   \<and> logoFile opts0 = Some (Upload ''logo.png'')
   \<and> logoUrl denv0 (Upload ''logo.png'') = Some ''data:image/png;base64,AAAA''
   \<and> (\<forall>q. CHR ''$'' \<notin> set (fmt denv0 q))
   \<and> downloadQRCode denv0 opts0 False 1700 Svg stSvg
       = Some (SvgDownload ''qrbrandr-qr-code-1700.svg''
           (''<svg><path/>''
            @ ''<circle cx="150" cy="150" r="36" fill="#ffffff"/>''
            @ ''<defs><clipPath id="logoClip"><circle cx="150" cy="150" r="30"/></clipPath></defs>''
            @ ''<image x="120" y="120" width="60" height="60" href="data:image/png;base64,AAAA" clip-path="url(#logoClip)"/>''
            @ ''</svg>''))\<close>
proof -
  have h1: "qrSvgString stSvg = ''<svg><path/>'' @ ''</svg>''" by (simp add: stSvg_def)
  have occ: "filter (\<lambda>i. prefix ''</svg>'' (drop i (''<svg><path/>'' @ ''</svg>'')))
        [0..<Suc (length (''<svg><path/>'' @ ''</svg>''))] = [length ''<svg><path/>'']"
    by (simp add: upt_rec)
  have h2: "\<forall>a b. ''<svg><path/>'' @ ''</svg>'' = a @ ''</svg>'' @ b \<longrightarrow> a = ''<svg><path/>''"
    by (rule only_final_occurrence[OF occ])
  have h3: "logoFile opts0 = Some (Upload ''logo.png'')" by (simp add: opts0_def)
  have h4: "logoUrl denv0 (Upload ''logo.png'') = Some ''data:image/png;base64,AAAA''"
    by (simp add: denv0_def)
  have h5: "\<forall>q. CHR ''$'' \<notin> set (fmt denv0 q)" by (simp add: denv0_def)
  have h6: "CHR ''$'' \<notin> set ''data:image/png;base64,AAAA''" by simp
  have name: "baseFilename 1700 = ''qrbrandr-qr-code-1700''"
    by (simp add: baseFilename_def show_nat.simps digit_def)
  have bg: \<open>renderElem (fmt denv0) (backgroundRect opts0 False)
      = ''<circle cx="150" cy="150" r="36" fill="#ffffff"/>''\<close>
    by (simp add: backgroundRect_def opts0_def svg_x_def svg_y_def svg_logoSize_def svg_padding_def
          denv0_def attr_def lightColor_def samples0)
  have lg: \<open>renderElem (fmt denv0) (logoElement opts0 ''data:image/png;base64,AAAA'')
      = ''<defs><clipPath id="logoClip"><circle cx="150" cy="150" r="30"/></clipPath></defs><image x="120" y="120" width="60" height="60" href="data:image/png;base64,AAAA" clip-path="url(#logoClip)"/>''\<close>
    by (simp add: logoElement_def opts0_def svg_x_def svg_y_def svg_logoSize_def svg_padding_def
          denv0_def attr_def samples0)
  from C5_insert_before_closing_tag[OF h1 h2 h3 h4 h5 h6, of False 1700]
  have \<open>downloadQRCode denv0 opts0 False 1700 Svg stSvg
       = Some (SvgDownload ''qrbrandr-qr-code-1700.svg''
           (''<svg><path/>''
            @ ''<circle cx="150" cy="150" r="36" fill="#ffffff"/>''
            @ ''<defs><clipPath id="logoClip"><circle cx="150" cy="150" r="30"/></clipPath></defs><image x="120" y="120" width="60" height="60" href="data:image/png;base64,AAAA" clip-path="url(#logoClip)"/>''
            @ ''</svg>''))\<close>
    unfolding name bg lg by simp
  then show ?thesis using h1 occ h3 h4 h5 by simp
qed

section \<open>Blank payloads\<close>

lemma blank_iff: "blank s \<longleftrightarrow> (\<forall>c \<in> set s. isWhiteSpace c)"
proof
  assume "blank s"
  then have a: "\<forall>x \<in> set (dropWhile isWhiteSpace s). isWhiteSpace x"
    by (simp add: blank_def trim_def dropWhile_eq_Nil_conv)
  have "dropWhile isWhiteSpace s = []"
  proof (rule ccontr)
    assume ne: "dropWhile isWhiteSpace s \<noteq> []"
    then have "\<not> isWhiteSpace (hd (dropWhile isWhiteSpace s))" by (rule hd_dropWhile)
    moreover have "hd (dropWhile isWhiteSpace s) \<in> set (dropWhile isWhiteSpace s)"
      using ne by simp
    ultimately show False using a by blast
  qed
  then show "\<forall>c \<in> set s. isWhiteSpace c" by (simp add: dropWhile_eq_Nil_conv)
next
  assume "\<forall>c \<in> set s. isWhiteSpace c"
  then have e: "dropWhile isWhiteSpace s = []" by (simp add: dropWhile_eq_Nil_conv)
  show "blank s" unfolding blank_def trim_def e by simp
qed

lemma all_blank_filter:
  "list_all (\<lambda>item. blank (item_text item)) xs
     \<longleftrightarrow> filter (\<lambda>item. \<not> blank (item_text item)) xs = []"
  by (induction xs) auto

lemma downloadBatch_filter:
  "downloadBatch benv d now format batchItems
     = downloadBatch benv d now format (filter (\<lambda>item. \<not> blank (item_text item)) batchItems)"
proof (cases "filter (\<lambda>item. \<not> blank (item_text item)) batchItems = []")
  case True
  then have "batchItems = [] \<or> list_all (\<lambda>item. blank (item_text item)) batchItems"
    by (simp add: all_blank_filter)
  then show ?thesis using True by (simp add: downloadBatch_def)
next
  case False
  let ?v = "filter (\<lambda>item. \<not> blank (item_text item)) batchItems"
  have l: "\<not> (batchItems = [] \<or> list_all (\<lambda>item. blank (item_text item)) batchItems)"
    using False by (auto simp: all_blank_filter)
  have r: "\<not> (?v = [] \<or> list_all (\<lambda>item. blank (item_text item)) ?v)"
    using False by (simp add: all_blank_filter)
  have ff: "filter (\<lambda>item. \<not> blank (item_text item)) ?v = ?v" by simp
  show ?thesis
    unfolding downloadBatch_def[of benv d now format batchItems]
      downloadBatch_def[of benv d now format ?v] if_not_P[OF l] if_not_P[OF r] ff ..
qed

lemma pngLoop_accepted:
  assumes "\<forall>item \<in> set items. accepts (encoder benv) (item_text item) EcH"
  shows "snd (pngLoop benv d items) = False
       \<and> concat (map artifactImages (fst (pngLoop benv d items)))
           = map (\<lambda>item. qrPng d (item_text item)) items"
  using assms by (induction items) (simp_all add: generateQRCodeDataURL_def Let_def)

lemma docImages_simps:
  "docImages (addPage doc) = docImages doc"
  "docImages (draw ops doc) = docImages doc @ concat (map opImages ops)"
  "docImages newPdf = []"
  by (simp_all add: docImages_def pages_def addPage_def draw_def newPdf_def)

lemma pagesLoop_accepted:
  assumes "\<forall>item \<in> set items. accepts (encoder benv) (item_text item) EcH"
  shows "\<exists>doc'. pagesLoop benv d i doc items = Some doc'
           \<and> docImages doc' = docImages doc @ map (\<lambda>item. qrPng d (item_text item)) items"
  using assms
proof (induction items arbitrary: i doc)
  case Nil
  then show ?case by simp
next
  case (Cons a items)
  have imgs: "concat (map opImages (pageOps benv i a (qrPng d (item_text a)))) = [qrPng d (item_text a)]"
    by (simp add: pageOps_def Let_def)
  from Cons.prems have acc: "accepts (encoder benv) (item_text a) EcH"
    and rest: "\<forall>item \<in> set items. accepts (encoder benv) (item_text item) EcH" by simp_all
  from Cons.IH[OF rest, of "i + 1" "draw (pageOps benv i a (qrPng d (item_text a))) (if 0 < i then addPage doc else doc)"]
  show ?case using acc imgs
    by (auto simp: generateQRCodeDataURL_def Let_def docImages_simps)
qed

lemma gridLoop_accepted:
  assumes "\<forall>item \<in> set items. accepts (encoder benv) (item_text item) EcH"
  shows "\<exists>cur' doc'. gridLoop benv d i cur doc items = Some (cur', doc')
           \<and> docImages doc' = docImages doc @ map (\<lambda>item. qrPng d (item_text item)) items"
  using assms
proof (induction items arbitrary: i cur doc)
  case Nil
  then show ?case by simp
next
  case (Cons a items)
  have imgs: "concat (map opImages (cellOps benv i a (qrPng d (item_text a)))) = [qrPng d (item_text a)]"
    by (simp add: cellOps_def Let_def)
  from Cons.prems have acc: "accepts (encoder benv) (item_text a) EcH"
    and rest: "\<forall>item \<in> set items. accepts (encoder benv) (item_text item) EcH" by simp_all
  from Cons.IH[OF rest, of "i + 1" "if pageIndex i > cur then pageIndex i else cur"
      "draw (cellOps benv i a (qrPng d (item_text a))) (if pageIndex i > cur then addPage doc else doc)"]
  show ?case using acc imgs
    by (auto simp: generateQRCodeDataURL_def Let_def docImages_simps)
qed


text \<open>
  C6. A payload is blank exactly when it is empty or consists of white space only (the
  white space that \<^verbatim>\<open>trim\<close> removes, the no-break space included). With a
  blank payload \<^verbatim>\<open>generateQRCode\<close> returns the state it was given: no artifact is
  produced, nothing is written to the console, nothing is raised. The batch export gives
  the same files and messages as for the collection without its blank items; it saves
  nothing when every item is blank; and when the encoder accepts the items that are not
  blank, it reports no error and the encoded images in the saved files are exactly those of
  the items that are not blank, in collection order (so blank items are not counted).
\<close>

theorem C6_blank_skipped:
  "(blank s \<longleftrightarrow> (\<forall>c \<in> set s. isWhiteSpace c))
   \<and> (blank (qr_text opts) \<longrightarrow> generateQRCode env opts isDarkMode st = st)
   \<and> downloadBatch benv isDarkMode now format batchItems
       = downloadBatch benv isDarkMode now format
           (filter (\<lambda>item. \<not> blank (item_text item)) batchItems)
   \<and> (list_all (\<lambda>item. blank (item_text item)) batchItems \<longrightarrow>
         downloadBatch benv isDarkMode now format batchItems = ([], []))
   \<and> ((\<forall>item \<in> set batchItems.
          \<not> blank (item_text item) \<longrightarrow> accepts (encoder benv) (item_text item) EcH) \<longrightarrow>
         snd (downloadBatch benv isDarkMode now format batchItems) = []
       \<and> concat (map artifactImages (fst (downloadBatch benv isDarkMode now format batchItems)))
           = map (\<lambda>item. qrPng isDarkMode (item_text item))
               (filter (\<lambda>item. \<not> blank (item_text item)) batchItems))"
proof -
  let ?v = "filter (\<lambda>item. \<not> blank (item_text item)) batchItems"
  have c2: "blank (qr_text opts) \<longrightarrow> generateQRCode env opts isDarkMode st = st"
    by (simp add: generateQRCode_def)
  have c4: "list_all (\<lambda>item. blank (item_text item)) batchItems \<longrightarrow>
         downloadBatch benv isDarkMode now format batchItems = ([], [])"
    by (simp add: downloadBatch_def)
  have c5: "snd (downloadBatch benv isDarkMode now format batchItems) = []
       \<and> concat (map artifactImages (fst (downloadBatch benv isDarkMode now format batchItems)))
           = map (\<lambda>item. qrPng isDarkMode (item_text item)) ?v"
    if a: "\<forall>item \<in> set batchItems.
          \<not> blank (item_text item) \<longrightarrow> accepts (encoder benv) (item_text item) EcH"
  proof (cases "?v = []")
    case True
    then have "batchItems = [] \<or> list_all (\<lambda>item. blank (item_text item)) batchItems"
      by (simp add: all_blank_filter)
    then show ?thesis using True by (simp add: downloadBatch_def)
  next
    case False
    have l: "\<not> (batchItems = [] \<or> list_all (\<lambda>item. blank (item_text item)) batchItems)"
      using False by (auto simp: all_blank_filter)
    have acc: "\<forall>item \<in> set ?v. accepts (encoder benv) (item_text item) EcH" using a by simp
    show ?thesis
    proof (cases format)
      case PngZip
      show ?thesis
        unfolding downloadBatch_def if_not_P[OF l] PngZip
        using pngLoop_accepted[OF acc, of isDarkMode] by (simp add: Let_def)
    next
      case PdfPages
      from pagesLoop_accepted[OF acc, of isDarkMode 0 newPdf] obtain doc' where
        "pagesLoop benv isDarkMode 0 newPdf ?v = Some doc'"
        "docImages doc' = map (\<lambda>item. qrPng isDarkMode (item_text item)) ?v"
        by (auto simp: docImages_simps)
      then show ?thesis
        unfolding downloadBatch_def if_not_P[OF l] PdfPages
        by (simp add: Let_def docImages_def)
    next
      case PdfGrid
      from gridLoop_accepted[OF acc, of isDarkMode 0 0 newPdf] obtain cur' doc' where
        "gridLoop benv isDarkMode 0 0 newPdf ?v = Some (cur', doc')"
        "docImages doc' = map (\<lambda>item. qrPng isDarkMode (item_text item)) ?v"
        by (auto simp: docImages_simps)
      then show ?thesis
        unfolding downloadBatch_def if_not_P[OF l] PdfGrid
        by (simp add: Let_def docImages_def)
    qed
  qed
  show ?thesis
    using blank_iff[of s] c2 downloadBatch_filter[of benv isDarkMode now format batchItems] c4 c5
    by (intro conjI impI) (assumption | blast)+
qed

text \<open>
  The theorem at a request of a no-break space and a space, and at the sample collection
  with two blank items.
\<close>

theorem C6_blank_skipped_witness:
  "blank (qr_text optsBlank)
   \<and> generateQRCode env0 optsBlank False st0 = st0
   \<and> filter (\<lambda>item. \<not> blank (item_text item)) itemsBlank
       = [\<lparr>item_id = ''1'', item_text = ''tel:+1'', filename = Some ''phone''\<rparr>]
   \<and> downloadBatch benv0 False 1700 PngZip itemsBlank
       = ([PngFile ''phone.png'' (qrPng False ''tel:+1'')], [])
   \<and> list_all (\<lambda>item. blank (item_text item)) (tl itemsBlank)
   \<and> downloadBatch benv0 False 1700 PdfGrid (tl itemsBlank) = ([], [])"
proof -
  have b: "blank (qr_text optsBlank)"
    by (simp add: optsBlank_def blank_def trim_def isWhiteSpace_def)
  have f: "filter (\<lambda>item. \<not> blank (item_text item)) itemsBlank
       = [\<lparr>item_id = ''1'', item_text = ''tel:+1'', filename = Some ''phone''\<rparr>]"
    by (simp add: itemsBlank_def blank_def trim_def isWhiteSpace_def)
  have t: "list_all (\<lambda>item. blank (item_text item)) (tl itemsBlank)"
    by (simp add: itemsBlank_def blank_def trim_def isWhiteSpace_def)
  have one: "downloadBatch benv0 False 1700 PngZip
        [\<lparr>item_id = ''1'', item_text = ''tel:+1'', filename = Some ''phone''\<rparr>]
       = ([PngFile ''phone.png'' (qrPng False ''tel:+1'')], [])"
    by (simp add: downloadBatch_def blank_def trim_def isWhiteSpace_def Let_def
          generateQRCodeDataURL_def benv0_def filenameOr_def)
  note inst = C6_blank_skipped[of "qr_text optsBlank" optsBlank env0 False st0 benv0 1700]
  have g: "generateQRCode env0 optsBlank False st0 = st0"
    using inst[of PngZip itemsBlank] b by blast
  have d1: "downloadBatch benv0 False 1700 PngZip itemsBlank
       = ([PngFile ''phone.png'' (qrPng False ''tel:+1'')], [])"
    using inst[of PngZip itemsBlank] f one by simp
  have d2: "downloadBatch benv0 False 1700 PdfGrid (tl itemsBlank) = ([], [])"
    using inst[of PdfGrid "tl itemsBlank"] t by blast
  show ?thesis using b g f d1 t d2 by simp
qed


end
